theory Spec2Isabelle
  imports Complex_Main "HOL-Library.Sublist" "HOL-Library.List_Lexorder" "HOL-Library.Char_ord"
begin

section \<open>Python strings and paths\<close>

text \<open>
  Strings are byte strings restricted to ASCII: \<open>str.lower\<close> and \<open>str.upper\<close> change the
  26 Latin letters and nothing else, \<open>str.split()\<close> splits at the ASCII white space of
  Python (codes 9 to 13, 28 to 32), \<open>str.isalnum\<close> holds of ASCII letters and digits. A
  file name is the last component of a path and contains no separator.
\<close>

definition lower_char :: "char \<Rightarrow> char" where
  "lower_char c =
     (case map_of (zip ''ABCDEFGHIJKLMNOPQRSTUVWXYZ'' ''abcdefghijklmnopqrstuvwxyz'') c of
        Some d \<Rightarrow> d | None \<Rightarrow> c)"

definition upper_char :: "char \<Rightarrow> char" where
  "upper_char c =
     (case map_of (zip ''abcdefghijklmnopqrstuvwxyz'' ''ABCDEFGHIJKLMNOPQRSTUVWXYZ'') c of
        Some d \<Rightarrow> d | None \<Rightarrow> c)"

definition lower :: "string \<Rightarrow> string" where
  "lower s = map lower_char s"

definition upper :: "string \<Rightarrow> string" where
  "upper s = map upper_char s"

definition is_space :: "char \<Rightarrow> bool" where
  "is_space c = (let n = (of_char c :: nat) in (9 \<le> n \<and> n \<le> 13) \<or> (28 \<le> n \<and> n \<le> 32))"

definition is_lower_alnum :: "char \<Rightarrow> bool" where
  \<comment> \<open>the regex class \<open>[a-z0-9]\<close>\<close>
  "is_lower_alnum c = (c \<in> set ''abcdefghijklmnopqrstuvwxyz0123456789'')"

definition isalnum :: "char \<Rightarrow> bool" where
  "isalnum c = (is_lower_alnum c \<or> c \<in> set ''ABCDEFGHIJKLMNOPQRSTUVWXYZ'')"

text \<open>\<open>s.split()\<close>: the maximal runs of characters that are not white space.\<close>

fun split_go :: "string \<Rightarrow> string \<Rightarrow> string list" where
  "split_go [] cur = (if cur = [] then [] else [cur])"
| "split_go (c # cs) cur =
     (if is_space c then (if cur = [] then split_go cs [] else cur # split_go cs [])
      else split_go cs (cur @ [c]))"

definition split :: "string \<Rightarrow> string list" where
  "split s = split_go s []"

text \<open>\<open>sep.join(parts)\<close>.\<close>

fun join :: "string \<Rightarrow> string list \<Rightarrow> string" where
  "join sep [] = []"
| "join sep [p] = p"
| "join sep (p # q # ps) = p @ sep @ join sep (q # ps)"

text \<open>\<open>needle in hay\<close> on strings: \<open>needle\<close> occurs as a contiguous substring.\<close>

fun py_in :: "string \<Rightarrow> string \<Rightarrow> bool" where
  "py_in needle [] = (needle = [])"
| "py_in needle (c # cs) = (prefix needle (c # cs) \<or> py_in needle cs)"

text \<open>\<open>hay.find(needle)\<close>: the least index of an occurrence, \<open>None\<close> for Python's \<open>-1\<close>.\<close>

fun find_from :: "nat \<Rightarrow> string \<Rightarrow> string \<Rightarrow> nat option" where
  "find_from i needle [] = (if needle = [] then Some i else None)"
| "find_from i needle (c # cs) =
     (if prefix needle (c # cs) then Some i else find_from (Suc i) needle cs)"

definition find :: "string \<Rightarrow> string \<Rightarrow> nat option" where
  "find hay needle = find_from 0 needle hay"

text \<open>\<open>s.replace(old, new)\<close> for a single-character \<open>old\<close>.\<close>

definition replace_char :: "char \<Rightarrow> string \<Rightarrow> string \<Rightarrow> string" where
  "replace_char old new s = concat (map (\<lambda>c. if c = old then new else [c]) s)"

text \<open>\<open>name.rfind('.')\<close>: the greatest index of a dot.\<close>

fun rfind_dot_from :: "nat \<Rightarrow> string \<Rightarrow> nat option" where
  "rfind_dot_from i [] = None"
| "rfind_dot_from i (c # cs) =
     (case rfind_dot_from (Suc i) cs of
        Some j \<Rightarrow> Some j
      | None \<Rightarrow> if c = CHR ''.'' then Some i else None)"

definition rfind_dot :: "string \<Rightarrow> nat option" where
  "rfind_dot s = rfind_dot_from 0 s"

text \<open>
  \<open>pathlib\<close>: \<open>Path(name).suffix\<close> and \<open>Path(name).stem\<close> of a file name. The name splits
  at its last dot when that dot is neither the first nor the last character (Python up
  to 3.13).
\<close>

definition suffix_of :: "string \<Rightarrow> string" where
  "suffix_of nm =
     (case rfind_dot nm of
        Some i \<Rightarrow> if 0 < i \<and> i + 1 < length nm then drop i nm else []
      | None \<Rightarrow> [])"

definition stem :: "string \<Rightarrow> string" where
  "stem nm =
     (case rfind_dot nm of
        Some i \<Rightarrow> if 0 < i \<and> i + 1 < length nm then take i nm else nm
      | None \<Rightarrow> nm)"

text \<open>A path is kept as its parent folder and its file name.\<close>

record path =
  parent :: string
  file_name :: string

section \<open>The ratio catalog and \<open>select_best_ratio\<close>\<close>

text \<open>
  A ratio configuration is a Python dict. The entries of \<open>AVAILABLE_RATIOS\<close> have the keys
  \<open>api_value\<close>, \<open>width\<close>, \<open>height\<close> and \<open>aspect\<close>; \<open>select_best_ratio\<close> adds the key
  \<open>name\<close>. A key that may be absent is an option. The catalog is an association list in
  the dict's insertion order. The type \<open>'f\<close> is the type of floats: the selection loop
  uses only its order, its subtraction and its absolute value. The catalog itself and the
  arithmetic of the resize take floats as exact rationals, so \<open>16/9\<close> is the quotient and
  not its nearest double.
\<close>

record 'f ratio_config =
  name :: "string option"
  api_value :: string
  width :: int
  height :: int
  aspect :: 'f

datatype py_error = KeyError | TypeError | ZeroDivisionError | ValueError | IndexError | OSError

definition AVAILABLE_RATIOS :: "(string \<times> rat ratio_config) list" where
  "AVAILABLE_RATIOS =
     [(''16:9'', \<lparr>name = None, api_value = ''1280:720'', width = 1280, height = 720, aspect = 16 / 9\<rparr>),
      (''9:16'', \<lparr>name = None, api_value = ''720:1280'', width = 720, height = 1280, aspect = 9 / 16\<rparr>),
      (''1:1'', \<lparr>name = None, api_value = ''960:960'', width = 960, height = 960, aspect = 1\<rparr>),
      (''4:3'', \<lparr>name = None, api_value = ''1104:832'', width = 1104, height = 832, aspect = 4 / 3\<rparr>),
      (''3:4'', \<lparr>name = None, api_value = ''832:1104'', width = 832, height = 1104, aspect = 3 / 4\<rparr>),
      (''21:9'', \<lparr>name = None, api_value = ''1584:672'', width = 1584, height = 672, aspect = 21 / 9\<rparr>)]"

text \<open>
  The loop of \<open>select_best_ratio\<close>. The state is \<open>(min_difference, best_ratio)\<close>; it is
  \<open>None\<close> while \<open>min_difference\<close> is \<open>float('inf')\<close> and \<open>best_ratio\<close> is \<open>None\<close>: every
  difference of finite floats is below infinity.
\<close>

fun select_loop ::
  "'f::{linorder,minus,abs} \<Rightarrow> (string \<times> 'f ratio_config) list \<Rightarrow>
   ('f \<times> 'f ratio_config) option \<Rightarrow> ('f \<times> 'f ratio_config) option" where
  "select_loop image_aspect [] st = st"
| "select_loop image_aspect ((ratio_name, cfg) # rest) st =
     (let difference = \<bar>image_aspect - aspect cfg\<bar> in
      if (case st of None \<Rightarrow> True | Some (min_difference, _) \<Rightarrow> difference < min_difference)
      then select_loop image_aspect rest (Some (difference, cfg\<lparr>name := Some ratio_name\<rparr>))
      else select_loop image_aspect rest st)"

text \<open>
  After the loop the log line reads \<open>best_ratio['name']\<close>, which raises \<open>TypeError\<close> when
  \<open>best_ratio\<close> is still \<open>None\<close>.
\<close>

definition select_best_ratio_in ::
  "(string \<times> 'f ratio_config) list \<Rightarrow> 'f::{linorder,minus,abs} \<Rightarrow> py_error + 'f ratio_config" where
  "select_best_ratio_in catalog image_aspect =
     (case select_loop image_aspect catalog None of
        None \<Rightarrow> Inl TypeError
      | Some (_, best_ratio) \<Rightarrow> Inr best_ratio)"

definition select_best_ratio :: "rat \<Rightarrow> py_error + rat ratio_config" where
  "select_best_ratio image_aspect = select_best_ratio_in AVAILABLE_RATIOS image_aspect"

text \<open>The entry the loop stores for a catalog item, and the difference it compares.\<close>

definition named :: "string \<times> 'f ratio_config \<Rightarrow> 'f ratio_config" where
  "named p = (snd p)\<lparr>name := Some (fst p)\<rparr>"




section \<open>Pattern matching\<close>

text \<open>
  \<open>GUISelectors._matches_pattern\<close> (gui_selectors.py). \<open>re.split(r'[-_\s.]+', s)\<close> cuts
  \<open>s\<close> at every maximal run of delimiters and keeps the empty segments at both ends.
\<close>

definition is_delim :: "char \<Rightarrow> bool" where
  "is_delim c = (c = CHR ''-'' \<or> c = CHR ''_'' \<or> c = CHR ''.'' \<or> is_space c)"

fun re_split_go :: "string \<Rightarrow> string \<Rightarrow> bool \<Rightarrow> string list" where
  "re_split_go [] cur in_run = [cur]"
| "re_split_go (c # cs) cur in_run =
     (if is_delim c then (if in_run then re_split_go cs [] True else cur # re_split_go cs [] True)
      else re_split_go cs (cur @ [c]) False)"

definition re_split :: "string \<Rightarrow> string list" where
  "re_split s = re_split_go s [] False"

definition matches_pattern :: "string \<Rightarrow> string \<Rightarrow> bool \<Rightarrow> bool" where
  "matches_pattern filename pattern exact_match =
     (let filename_lower = lower filename; pattern_lower = lower pattern in
      if exact_match then
        (let name_without_ext =
               (case rfind_dot filename_lower of
                  Some i \<Rightarrow> take i filename_lower | None \<Rightarrow> filename_lower) in
         if prefix ''-'' pattern_lower \<or> prefix ''_'' pattern_lower then
           (if py_in pattern_lower name_without_ext then
              (case find name_without_ext pattern_lower of
                 Some pos \<Rightarrow>
                   if 0 < pos then
                     (let end_pos = pos + length pattern_lower in
                      if length name_without_ext \<le> end_pos
                           \<or> \<not> isalnum (name_without_ext ! end_pos)
                      then True else False)
                   else False
               | None \<Rightarrow> False)
            else False)
         else pattern_lower \<in> set (re_split name_without_ext))
      else py_in pattern_lower filename_lower)"

text \<open>
  The exact-match test of \<open>get_genx_image_files\<close> (runway_generator.py):
  \<open>re.search(r'(^|[^a-z0-9])' + re.escape(pattern_lower) + r'([^a-z0-9]|$)', filename_lower)\<close>.
  The pattern occurs at some position where the character before it, if any, and the
  character after it, if any, are outside \<open>[a-z0-9]\<close>. \<open>prev\<close> is the character before
  the current position.
\<close>

definition boundary_before :: "char option \<Rightarrow> bool" where
  "boundary_before prev = (case prev of None \<Rightarrow> True | Some c \<Rightarrow> \<not> is_lower_alnum c)"

definition boundary_after :: "string \<Rightarrow> bool" where
  "boundary_after post = (case post of [] \<Rightarrow> True | d # _ \<Rightarrow> \<not> is_lower_alnum d)"

fun segment_search :: "char option \<Rightarrow> string \<Rightarrow> string \<Rightarrow> bool" where
  "segment_search prev p [] = (boundary_before prev \<and> p = [])"
| "segment_search prev p (c # cs) =
     ((boundary_before prev \<and> prefix p (c # cs) \<and> boundary_after (drop (length p) (c # cs)))
      \<or> segment_search (Some c) p cs)"

definition genx_matches :: "string \<Rightarrow> bool \<Rightarrow> string \<Rightarrow> bool" where
  "genx_matches search_pattern exact_match file_name' =
     (let pattern_lower = lower search_pattern; filename_lower = lower file_name' in
      if exact_match then segment_search None pattern_lower filename_lower
      else py_in pattern_lower filename_lower)"

section \<open>Duplicate detection and folder scanning\<close>

definition extract_name_from_genx_filename :: "string \<Rightarrow> string option" where
  "extract_name_from_genx_filename filename =
     (let name_part = stem filename; parts = split name_part in
      if 3 \<le> length parts \<and> lower (hd parts) = ''genx'' \<and> lower (last parts) = ''self''
      then Some (join '' '' (butlast (tl parts)))
      else None)"

text \<open>
  The tree below the downloads folder. \<open>Path.rglob('*' + ext)\<close> yields the entries, files
  and directories alike, whose name ends in \<open>ext\<close>: first those of a directory, then those
  of its subdirectories. The match ignores case on Windows (\<open>case_sensitive = False\<close>).
\<close>

datatype fs_entry = File string | Dir string "fs_entry list"

fun entry_name :: "fs_entry \<Rightarrow> string" where
  "entry_name (File n) = n"
| "entry_name (Dir n _) = n"

definition glob_match :: "bool \<Rightarrow> string \<Rightarrow> string \<Rightarrow> bool" where
  "glob_match case_sensitive ext nm = suffix ext (if case_sensitive then nm else lower nm)"

fun rglob :: "(string \<Rightarrow> bool) \<Rightarrow> fs_entry list \<Rightarrow> string list" where
  "rglob m es =
     filter m (map entry_name es) @
     concat (map (\<lambda>e. case e of File _ \<Rightarrow> [] | Dir _ sub \<Rightarrow> rglob m sub) es)"

declare rglob.simps [simp del]


definition video_extensions :: "string list" where
  "video_extensions = [''.mp4'', ''.mov'', ''.avi'', ''.mkv'', ''.webm'']"

text \<open>
  \<open>check_existing_videos\<close>. The scan returns at its first match; it yields the answer and
  the video names it has checked (one log line each).
\<close>

definition name_matches_video :: "string list \<Rightarrow> string \<Rightarrow> bool" where
  "name_matches_video name_parts video_file =
     (let video_name = upper (stem video_file) in
      list_all (\<lambda>part. py_in (upper part) video_name) name_parts)"

fun scan_videos :: "string list \<Rightarrow> string list \<Rightarrow> bool \<times> string list" where
  "scan_videos name_parts [] = (False, [])"
| "scan_videos name_parts (video_file # rest) =
     (if name_matches_video name_parts video_file then (True, [video_file])
      else (case scan_videos name_parts rest of (found, checked) \<Rightarrow> (found, video_file # checked)))"

record downloads =
  case_sensitive :: bool
  tree :: "fs_entry list option"   \<comment> \<open>\<open>None\<close>: the folder does not exist\<close>

definition check_existing_videos :: "downloads \<Rightarrow> string \<Rightarrow> bool \<times> string list" where
  "check_existing_videos dl nm =
     (case tree dl of
        None \<Rightarrow> (False, [])
      | Some es \<Rightarrow>
          scan_videos (split nm)
            (concat (map (\<lambda>video_ext. rglob (glob_match (case_sensitive dl) video_ext) es)
               video_extensions)))"

text \<open>
  \<open>get_genx_image_files\<close>. A folder is the list of its direct entries (name, is it a
  file) in the order of \<open>iterdir\<close>, or \<open>None\<close> when it does not exist. An empty name is
  false in \<open>if person_name:\<close>.
\<close>

definition image_extensions :: "string list" where
  "image_extensions =
     [''.jpg'', ''.jpeg'', ''.png'', ''.bmp'', ''.gif'', ''.webp'', ''.tiff'', ''.tif'']"

definition is_image_file :: "string \<times> bool \<Rightarrow> bool" where
  "is_image_file e = (snd e \<and> lower (suffix_of (fst e)) \<in> set image_extensions)"

definition keep_file :: "downloads \<Rightarrow> string \<Rightarrow> bool" where
  "keep_file dl file_name' =
     (case extract_name_from_genx_filename file_name' of
        Some person_name \<Rightarrow>
          if person_name \<noteq> [] then \<not> fst (check_existing_videos dl person_name) else True
      | None \<Rightarrow> True)"

definition get_genx_image_files ::
  "downloads \<Rightarrow> string \<Rightarrow> (string \<times> bool) list option \<Rightarrow> string \<Rightarrow> bool \<Rightarrow> path list" where
  "get_genx_image_files dl folder_path' listing search_pattern exact_match =
     (case listing of
        None \<Rightarrow> []
      | Some es \<Rightarrow>
          map (\<lambda>e. \<lparr>parent = folder_path', file_name = fst e\<rparr>)
            (filter (\<lambda>e. is_image_file e \<and> genx_matches search_pattern exact_match (fst e)
                          \<and> keep_file dl (fst e)) es))"

section \<open>Resizing\<close>

text \<open>
  A Pillow image is kept as its size and mode. \<open>crop\<close> raises when the box is inverted,
  \<open>resize\<close> when the requested size is not positive. Floats are exact rationals here;
  \<open>int(x)\<close> truncates towards zero and \<open>//\<close> is floor division.
\<close>

record image =
  img_width :: int
  img_height :: int
  img_mode :: string

definition pil_convert_rgb :: "image \<Rightarrow> image" where
  "pil_convert_rgb img = img\<lparr>img_mode := ''RGB''\<rparr>"

definition pil_crop :: "image \<Rightarrow> int \<times> int \<times> int \<times> int \<Rightarrow> py_error + image" where
  "pil_crop img box =
     (case box of (left, top', right, bottom) \<Rightarrow>
        if right < left \<or> bottom < top' then Inl ValueError
        else Inr (img\<lparr>img_width := right - left, img_height := bottom - top'\<rparr>))"

definition pil_resize :: "image \<Rightarrow> int \<times> int \<Rightarrow> py_error + image" where
  "pil_resize img sz =
     (case sz of (w, h) \<Rightarrow>
        if w < 1 \<or> h < 1 then Inl ValueError
        else Inr (img\<lparr>img_width := w, img_height := h\<rparr>))"

definition py_int :: "rat \<Rightarrow> int" where
  "py_int x = (if 0 \<le> x then \<lfloor>x\<rfloor> else \<lceil>x\<rceil>)"

text \<open>
  What one call of \<open>create_act_two_generation\<close> meets outside the program: the file
  system, Pillow opening the character image, the remote API. \<open>None\<close> is an operation
  that raises.
\<close>

record status_data =
  sd_status :: "string option"
  sd_output :: "string list option"
  sd_error :: "string option"

datatype post_reply = PostRaised | PostResponse int string "string option"
  \<comment> \<open>status code, body text, the \<open>id\<close> of the JSON body if it has one\<close>

datatype poll_reply = PollRaised | PollResponse int status_data

datatype download_reply = DownloadRaised | DownloadResponse int string

record payload =
  character_uri :: string
  reference_uri :: string
  ratio :: string

record world =
  path_exists :: "path \<Rightarrow> bool"
  read_file :: "path \<Rightarrow> string option"
  b64encode :: "string \<Rightarrow> string"
  opened_image :: "image option"
  temp_mkdir_ok :: bool
  save_ok :: bool
  post :: "payload \<Rightarrow> post_reply"
  task_poll :: "string \<Rightarrow> nat \<Rightarrow> poll_reply"
  download :: "string \<Rightarrow> download_reply"
  write_ok :: "path \<Rightarrow> bool"

definition analyze_image_aspect_ratio :: "world \<Rightarrow> rat \<times> int \<times> int" where
  "analyze_image_aspect_ratio w =
     (case opened_image w of
        None \<Rightarrow> (1, 0, 0)
      | Some img \<Rightarrow>
          if img_height img = 0 then (1, 0, 0)
          else (of_int (img_width img) / of_int (img_height img), img_width img, img_height img))"

text \<open>
  The body of the \<open>try\<close> of \<open>resize_image_smart\<close>: the path of the resized image, the
  image saved there and the crop box, or the exception raised.
\<close>

record resized =
  resized_path :: path
  saved :: image
  crop_box :: "int \<times> int \<times> int \<times> int"

definition crop_box_for :: "int \<Rightarrow> int \<Rightarrow> rat \<Rightarrow> py_error + int \<times> int \<times> int \<times> int" where
  "crop_box_for original_width original_height target_aspect =
     (if original_height = 0 then Inl ZeroDivisionError
      else
        let current_aspect = of_int original_width / of_int original_height :: rat in
        if current_aspect > target_aspect then
          (let new_width = py_int (of_int original_height * target_aspect);
               left = (original_width - new_width) div 2;
               top' = 0;
               right = left + new_width;
               bottom = original_height in
           if original_width = 0 then Inl ZeroDivisionError
           else Inr (left, top', right, bottom))
        else if target_aspect = 0 then Inl ZeroDivisionError
        else
          (let new_height = py_int (of_int original_width / target_aspect);
               left = 0;
               top' = (original_height - new_height) div 2;
               right = original_width;
               bottom = top' + new_height in
           Inr (left, top', right, bottom)))"

definition resize_body ::
  "world \<Rightarrow> path \<Rightarrow> rat ratio_config \<Rightarrow> string \<Rightarrow> py_error + resized" where
  "resize_body w image_path target_ratio temp_folder =
     (if \<not> temp_mkdir_ok w then Inl OSError
      else case opened_image w of
        None \<Rightarrow> Inl OSError
      | Some img0 \<Rightarrow>
          (let img = (if img_mode img0 \<noteq> ''RGB'' then pil_convert_rgb img0 else img0) in
           case crop_box_for (img_width img) (img_height img) (aspect target_ratio) of
             Inl e \<Rightarrow> Inl e
           | Inr box \<Rightarrow>
               (case pil_crop img box of
                  Inl e \<Rightarrow> Inl e
                | Inr cropped_img \<Rightarrow>
                    (case pil_resize cropped_img (width target_ratio, height target_ratio) of
                       Inl e \<Rightarrow> Inl e
                     | Inr resized_img \<Rightarrow>
                         (case name target_ratio of
                            None \<Rightarrow> Inl KeyError
                          | Some n \<Rightarrow>
                              (let original_name = stem (file_name image_path);
                                   ratio_name = replace_char CHR '':'' ''x'' n;
                                   resized_path' = \<lparr>parent = temp_folder,
                                     file_name = original_name @ ''_'' @ ratio_name @ ''.jpg''\<rparr> in
                               if \<not> save_ok w then Inl OSError
                               else Inr \<lparr>resized_path = resized_path', saved = resized_img,
                                          crop_box = box\<rparr>))))))"

definition resize_image_smart :: "world \<Rightarrow> path \<Rightarrow> rat ratio_config \<Rightarrow> string \<Rightarrow> path" where
  "resize_image_smart w image_path target_ratio temp_folder =
     (case resize_body w image_path target_ratio temp_folder of
        Inl e \<Rightarrow> image_path
      | Inr r \<Rightarrow> resized_path r)"

section \<open>One generation: \<open>create_act_two_generation\<close>\<close>

text \<open>
  The generator object keeps the driver video path and the cached data URI of the driver
  video. A configuration dict is kept as the two keys that choose the ratio; the other
  keys are copied into the request body and decide nothing here.
\<close>

record generator =
  driver_video_path :: path
  driver_video_data_uri :: "string option"

record config =
  aspect_ratio_mode :: "string option"
  fixed_aspect_ratio :: "string option"

text \<open>
  Every \<open>return None\<close> of the function is a failure, named after the line it logs; the
  \<open>except Exception\<close> around the whole body is \<open>Raised\<close>.
\<close>

datatype failure =
    DriverVideoNotFound
  | DriverEncodeFailed
  | ImageEncodeFailed
  | CreateTaskFailed string
  | StatusCheckFailed string
  | DownloadFailed int
  | NoVideoUrl
  | TaskFailed "string option"
  | TimedOut
  | Raised py_error

definition video_mime :: "string \<Rightarrow> string" where
  "video_mime ext =
     (if ext = ''.mp4'' then ''video/mp4''
      else if ext = ''.mov'' then ''video/quicktime''
      else if ext = ''.webm'' then ''video/webm''
      else ''video/mp4'')"

definition image_mime :: "string \<Rightarrow> string" where
  "image_mime ext =
     (if ext \<in> set [''.jpg'', ''.jpeg''] then ''image/jpeg''
      else if ext = ''.png'' then ''image/png''
      else if ext = ''.webp'' then ''image/webp''
      else ''image/jpeg'')"

definition encode_video_to_data_uri :: "world \<Rightarrow> path \<Rightarrow> string option" where
  "encode_video_to_data_uri w video_path =
     (case read_file w video_path of
        None \<Rightarrow> None
      | Some video_data \<Rightarrow>
          Some (''data:'' @ video_mime (lower (suffix_of (file_name video_path)))
                @ '';base64,'' @ b64encode w video_data))"

definition encode_image_to_data_uri :: "world \<Rightarrow> path \<Rightarrow> string option" where
  "encode_image_to_data_uri w image_path =
     (case read_file w image_path of
        None \<Rightarrow> None
      | Some image_data \<Rightarrow>
          Some (''data:'' @ image_mime (lower (suffix_of (file_name image_path)))
                @ '';base64,'' @ b64encode w image_data))"

text \<open>
  One pass through the body of the polling loop, for the poll number \<open>k\<close> (from 0):
  \<open>Some\<close> when the pass returns (the value returned and the file written), \<open>None\<close> when
  the loop goes on.
\<close>

definition poll_step ::
  "world \<Rightarrow> string \<Rightarrow> path \<Rightarrow> nat \<Rightarrow> ((failure + path) \<times> (path \<times> string) option) option" where
  "poll_step w task_id output_path k =
     (case task_poll w task_id k of
        PollRaised \<Rightarrow> Some (Inl (Raised OSError), None)
      | PollResponse status_code sd \<Rightarrow>
          if status_code \<noteq> 200 then Some (Inl (StatusCheckFailed task_id), None)
          else
            (let st = (case sd_status sd of None \<Rightarrow> ''UNKNOWN'' | Some x \<Rightarrow> x) in
             if st = ''SUCCEEDED'' then
               (case sd_output sd of
                  None \<Rightarrow> Some (Inl NoVideoUrl, None)
                | Some [] \<Rightarrow> Some (Inl (Raised IndexError), None)
                | Some (video_url # _) \<Rightarrow>
                    if video_url = [] then Some (Inl NoVideoUrl, None)
                    else
                      (case download w video_url of
                         DownloadRaised \<Rightarrow> Some (Inl (Raised OSError), None)
                       | DownloadResponse code content \<Rightarrow>
                           if code = 200 then
                             (if write_ok w output_path
                              then Some (Inr output_path, Some (output_path, content))
                              else Some (Inl (Raised OSError), None))
                           else Some (Inl (DownloadFailed code), None)))
             else if st = ''FAILED'' then Some (Inl (TaskFailed (sd_error sd)), None)
             else None))"

text \<open>
  The polling loop: \<open>while wait_time < max_wait\<close>, sleep 10 seconds, add 10 to
  \<open>wait_time\<close>, poll. \<open>pr_times\<close> lists the value of \<open>wait_time\<close> at each poll.
\<close>

definition max_wait :: nat where
  "max_wait = 600"

record poll_result =
  pr_result :: "failure + path"
  pr_times :: "nat list"
  pr_written :: "(path \<times> string) option"

text \<open>A poll at time \<open>t\<close> before the polls of the rest of the loop.\<close>

definition polled_at :: "nat \<Rightarrow> poll_result \<Rightarrow> poll_result" where
  "polled_at t rest = rest\<lparr>pr_times := t # pr_times rest\<rparr>"

function poll_loop :: "world \<Rightarrow> string \<Rightarrow> path \<Rightarrow> nat \<Rightarrow> poll_result" where
  "poll_loop w task_id output_path wait_time =
     (if wait_time < max_wait then
        (case poll_step w task_id output_path (wait_time div 10) of
           Some (r, wr) \<Rightarrow> \<lparr>pr_result = r, pr_times = [wait_time + 10], pr_written = wr\<rparr>
         | None \<Rightarrow>
             polled_at (wait_time + 10) (poll_loop w task_id output_path (wait_time + 10)))
      else \<lparr>pr_result = Inl TimedOut, pr_times = [], pr_written = None\<rparr>)"
  by pat_completeness auto
termination
  by (relation "measure (\<lambda>(w, task_id, output_path, wait_time). max_wait - wait_time)") auto
declare poll_loop.simps [simp del]


text \<open>The choice of the target ratio.\<close>

definition resolve_ratio :: "world \<Rightarrow> config \<Rightarrow> py_error + rat ratio_config" where
  "resolve_ratio w cfg =
     (let aspect_mode = (case aspect_ratio_mode cfg of None \<Rightarrow> ''smart'' | Some m \<Rightarrow> m) in
      if aspect_mode = ''smart'' then
        (case analyze_image_aspect_ratio w of (image_aspect, _, _) \<Rightarrow>
           select_best_ratio image_aspect)
      else
        (let fixed_ratio = (case fixed_aspect_ratio cfg of None \<Rightarrow> ''16:9'' | Some r \<Rightarrow> r) in
         case map_of AVAILABLE_RATIOS fixed_ratio of
           Some target_ratio \<Rightarrow> Inr target_ratio
         | None \<Rightarrow>
             (case map_of AVAILABLE_RATIOS ''16:9'' of
                Some target_ratio \<Rightarrow> Inr target_ratio
              | None \<Rightarrow> Inl KeyError)))"

record outcome =
  result :: "failure + path"
  gen :: generator
  posted :: "payload option"
  poll_times :: "nat list"
  written :: "(path \<times> string) option"

definition failed :: "generator \<Rightarrow> payload option \<Rightarrow> failure \<Rightarrow> outcome" where
  "failed g p f = \<lparr>result = Inl f, gen = g, posted = p, poll_times = [], written = None\<rparr>"

definition ensure_driver_uri :: "world \<Rightarrow> generator \<Rightarrow> generator" where
  "ensure_driver_uri w g =
     (if (case driver_video_data_uri g of None \<Rightarrow> True | Some u \<Rightarrow> u = [])
      then g\<lparr>driver_video_data_uri := encode_video_to_data_uri w (driver_video_path g)\<rparr>
      else g)"

definition submit_and_poll ::
  "world \<Rightarrow> generator \<Rightarrow> payload \<Rightarrow> path \<Rightarrow> outcome" where
  "submit_and_poll w g body output_path =
     (case post w body of
        PostRaised \<Rightarrow> failed g (Some body) (Raised OSError)
      | PostResponse status_code text' task_id_opt \<Rightarrow>
          if status_code \<noteq> 200 then failed g (Some body) (CreateTaskFailed text')
          else
            (case task_id_opt of
               None \<Rightarrow> failed g (Some body) (Raised KeyError)
             | Some task_id \<Rightarrow>
                 (case poll_loop w task_id output_path 0 of pr \<Rightarrow>
                    \<lparr>result = pr_result pr, gen = g, posted = Some body,
                     poll_times = pr_times pr, written = pr_written pr\<rparr>)))"

text \<open>\<open>if config is None: config = {}\<close>.\<close>

definition effective_config :: "config option \<Rightarrow> config" where
  "effective_config config_opt =
     (case config_opt of
        None \<Rightarrow> \<lparr>aspect_ratio_mode = None, fixed_aspect_ratio = None\<rparr>
      | Some c \<Rightarrow> c)"

definition create_act_two_generation ::
  "world \<Rightarrow> generator \<Rightarrow> path \<Rightarrow> string \<Rightarrow> config option \<Rightarrow> outcome" where
  "create_act_two_generation w g0 character_image_path output_folder config_opt =
     (if \<not> path_exists w (driver_video_path g0) then failed g0 None DriverVideoNotFound
      else
        (let g = ensure_driver_uri w g0 in
         case driver_video_data_uri g of
           None \<Rightarrow> failed g None DriverEncodeFailed
         | Some reference_data_uri \<Rightarrow>
             (case resolve_ratio w (effective_config config_opt) of
                Inl e \<Rightarrow> failed g None (Raised e)
              | Inr target_ratio \<Rightarrow>
                  (case name target_ratio of
                     None \<Rightarrow> failed g None (Raised KeyError)
                   | Some ratio_name \<Rightarrow>
                       (let resized_image_path =
                              resize_image_smart w character_image_path target_ratio ''temp_resized'' in
                        case encode_image_to_data_uri w resized_image_path of
                          None \<Rightarrow> failed g None ImageEncodeFailed
                        | Some character_image_data_uri \<Rightarrow>
                            (let image_name = stem (file_name character_image_path);
                                 ratio_suffix = replace_char CHR '':'' ''x'' ratio_name;
                                 output_path = \<lparr>parent = output_folder,
                                   file_name = image_name @ ''_act_two_'' @ ratio_suffix @ ''.mp4''\<rparr>;
                                 body = \<lparr>character_uri = character_image_data_uri,
                                   reference_uri = reference_data_uri,
                                   ratio = api_value target_ratio\<rparr> in
                             submit_and_poll w g body output_path))))))"

section \<open>The batch: \<open>process_all_images\<close>\<close>

text \<open>
  A subfolder of the target directory, as the run sees it: its path, its direct entries
  and the downloads folder at the moment the folder is scanned. The batch meets the
  driver video check at its start, the subfolders of the target directory (\<open>None\<close>: the
  directory does not exist) and, for each image, the world of its generation.
\<close>

record folder =
  dir_path :: path
  listing :: "(string \<times> bool) list"
  downloads_seen :: downloads

record batch_world =
  driver_at_start :: bool
  root_dirs :: "folder list option"
  image_world :: "path \<Rightarrow> world"

definition path_str :: "path \<Rightarrow> string" where
  "path_str p = parent p @ ''/'' @ file_name p"

definition get_all_folders :: "folder list option \<Rightarrow> folder list" where
  "get_all_folders root_listing =
     (case root_listing of
        None \<Rightarrow> []
      | Some ds \<Rightarrow> sort_key (\<lambda>d. upper (file_name (dir_path d))) ds)"

text \<open>
  The counters of the run and, in order, what it did: a generation (with its success)
  or a sleep between generations.
\<close>

datatype event = Generated path bool | Slept int

record summary =
  total_images :: nat
  successful_generations :: nat
  failed_generations :: nat
  skipped_duplicates :: int
  events :: "event list"

text \<open>
  The loop over the images of one folder, \<open>for i, image_path in enumerate(files, 1)\<close>,
  with \<open>n = len(files)\<close>. A returned path is a non-empty string, hence true in
  \<open>if result:\<close>.
\<close>

fun process_images ::
  "(path \<Rightarrow> world) \<Rightarrow> string \<Rightarrow> int \<Rightarrow> bool \<Rightarrow> nat \<Rightarrow> nat \<Rightarrow> path list \<Rightarrow>
   generator \<times> summary \<Rightarrow> generator \<times> summary" where
  "process_images iw output_directory delay co_located n i [] st = st"
| "process_images iw output_directory delay co_located n i (image_path # rest) st =
     (case st of (g, s) \<Rightarrow>
       (let specific_output = (if co_located then parent image_path else output_directory);
            out = create_act_two_generation (iw image_path) g image_path specific_output None;
            s1 = (case result out of
                    Inr _ \<Rightarrow> s\<lparr>successful_generations := successful_generations s + 1,
                               events := events s @ [Generated image_path True]\<rparr>
                  | Inl _ \<Rightarrow> s\<lparr>failed_generations := failed_generations s + 1,
                               events := events s @ [Generated image_path False]\<rparr>);
            s2 = (if i < n \<and> 0 < delay then s1\<lparr>events := events s1 @ [Slept delay]\<rparr> else s1)
        in process_images iw output_directory delay co_located n (Suc i) rest (gen out, s2)))"

definition total_found_in :: "folder \<Rightarrow> nat" where
  "total_found_in f =
     length (filter (\<lambda>e. snd e \<and> py_in ''genx'' (lower (fst e))
                          \<and> lower (suffix_of (fst e)) \<in> set image_extensions) (listing f))"

definition genx_files_of :: "folder \<Rightarrow> path list" where
  \<comment> \<open>\<open>self.get_genx_image_files(folder)\<close> with the default pattern\<close>
  "genx_files_of f =
     get_genx_image_files (downloads_seen f) (path_str (dir_path f)) (Some (listing f)) ''genx'' False"

fun process_folders ::
  "(path \<Rightarrow> world) \<Rightarrow> string \<Rightarrow> int \<Rightarrow> bool \<Rightarrow> folder list \<Rightarrow>
   generator \<times> summary \<Rightarrow> generator \<times> summary" where
  "process_folders iw output_directory delay co_located [] st = st"
| "process_folders iw output_directory delay co_located (f # rest) st =
     (case st of (g, s) \<Rightarrow>
       (let genx_image_files = genx_files_of f;
            total_found = total_found_in f;
            skipped_in_folder = int total_found - int (length genx_image_files);
            s1 = s\<lparr>total_images := total_images s + length genx_image_files,
                   skipped_duplicates := skipped_duplicates s + skipped_in_folder\<rparr>
        in if genx_image_files = [] then
             process_folders iw output_directory delay co_located rest (g, s1)
           else
             process_folders iw output_directory delay co_located rest
               (process_images iw output_directory delay co_located
                  (length genx_image_files) 1 genx_image_files (g, s1))))"

definition empty_summary :: summary where
  "empty_summary = \<lparr>total_images = 0, successful_generations = 0, failed_generations = 0,
     skipped_duplicates = 0, events = []\<rparr>"

text \<open>
  \<open>process_all_images\<close> returns before the loop, without a summary, when the driver
  video is missing or the target directory has no subfolder.
\<close>

definition process_all_images ::
  "batch_world \<Rightarrow> generator \<Rightarrow> string \<Rightarrow> int \<Rightarrow> bool \<Rightarrow> (generator \<times> summary) option" where
  "process_all_images bw g output_directory delay_between_generations co_located_output =
     (if \<not> driver_at_start bw then None
      else
        (let all_folders = get_all_folders (root_dirs bw) in
         if all_folders = [] then None
         else Some (process_folders (image_world bw) output_directory delay_between_generations
                      co_located_output all_folders (g, empty_summary))))"

section \<open>Notions used by the properties\<close>

text \<open>The images a run generates for, in order, and the sleeps and generations it records.\<close>

definition eligible_images :: "folder list \<Rightarrow> path list" where
  "eligible_images fs = concat (map genx_files_of fs)"

definition is_sleep :: "event \<Rightarrow> bool" where
  "is_sleep e = (case e of Slept _ \<Rightarrow> True | Generated _ _ \<Rightarrow> False)"

definition generated_paths :: "event list \<Rightarrow> path list" where
  "generated_paths es = concat (map (\<lambda>e. case e of Generated p _ \<Rightarrow> [p] | Slept _ \<Rightarrow> []) es)"

text \<open>Entries below a downloads tree, at any depth.\<close>

inductive under :: "fs_entry list \<Rightarrow> string \<Rightarrow> bool" where
  here: "e \<in> set es \<Longrightarrow> under es (entry_name e)"
| below: "Dir n sub \<in> set es \<Longrightarrow> under sub v \<Longrightarrow> under es v"

code_pred under .

definition under_root :: "downloads \<Rightarrow> string \<Rightarrow> bool" where
  "under_root dl v = (case tree dl of None \<Rightarrow> False | Some es \<Rightarrow> under es v)"

definition is_video_name :: "bool \<Rightarrow> string \<Rightarrow> bool" where
  "is_video_name cs v = (\<exists>ext \<in> set video_extensions. suffix ext (if cs then v else lower v))"

definition video_candidates :: "downloads \<Rightarrow> string list" where
  "video_candidates dl =
     (case tree dl of
        None \<Rightarrow> []
      | Some es \<Rightarrow>
          concat (map (\<lambda>video_ext. rglob (glob_match (case_sensitive dl) video_ext) es)
            video_extensions))"

text \<open>A poll that lets the loop go on: status 200 and a status that is not terminal.\<close>

definition non_terminal :: "poll_reply \<Rightarrow> bool" where
  "non_terminal r =
     (case r of
        PollRaised \<Rightarrow> False
      | PollResponse status_code sd \<Rightarrow>
          status_code = 200 \<and> sd_status sd \<noteq> Some ''SUCCEEDED'' \<and> sd_status sd \<noteq> Some ''FAILED'')"

text \<open>The generations a run records with a given success flag.\<close>

definition count_generated :: "bool \<Rightarrow> event list \<Rightarrow> nat" where
  "count_generated b es =
     length (filter (\<lambda>e. case e of Generated _ ok \<Rightarrow> ok = b | Slept _ \<Rightarrow> False) es)"

definition tally :: "summary \<Rightarrow> bool" where
  "tally s =
     (successful_generations s = count_generated True (events s)
      \<and> failed_generations s = count_generated False (events s))"

text \<open>One pass of the loop over the images of a folder.\<close>

definition image_step ::
  "(path \<Rightarrow> world) \<Rightarrow> string \<Rightarrow> int \<Rightarrow> bool \<Rightarrow> nat \<Rightarrow> nat \<Rightarrow> path \<Rightarrow>
   generator \<times> summary \<Rightarrow> generator \<times> summary" where
  "image_step iw output_directory delay co_located n i image_path st =
     (case st of (g, s) \<Rightarrow>
       (let out = create_act_two_generation (iw image_path) g image_path
                    (if co_located then parent image_path else output_directory) None;
            ok = (case result out of Inr _ \<Rightarrow> True | Inl _ \<Rightarrow> False);
            s1 = (if ok
                  then s\<lparr>successful_generations := successful_generations s + 1,
                         events := events s @ [Generated image_path True]\<rparr>
                  else s\<lparr>failed_generations := failed_generations s + 1,
                         events := events s @ [Generated image_path False]\<rparr>)
        in (gen out, if i < n \<and> 0 < delay then s1\<lparr>events := events s1 @ [Slept delay]\<rparr> else s1)))"

text \<open>
  The subject of a file name as the specification words it: at least three tokens, the
  first equal to the configured pattern token, the last equal to the suffix token.
\<close>

definition spec_subject :: "string \<Rightarrow> string \<Rightarrow> string option" where
  "spec_subject pattern_token filename =
     (let tokens = split (stem filename) in
      if 3 \<le> length tokens \<and> hd tokens = pattern_token \<and> last tokens = ''self''
      then Some (join '' '' (butlast (tl tokens)))
      else None)"


section \<open>Example worlds\<close>

text \<open>
  Worlds for the concrete runs below. In \<open>happy_world\<close> every operation succeeds and the
  task succeeds at its third poll; the base64 encoder is a stand-in.
\<close>

definition running_reply :: poll_reply where
  "running_reply =
     PollResponse 200 \<lparr>sd_status = Some ''RUNNING'', sd_output = None, sd_error = None\<rparr>"

definition succeeded_reply :: poll_reply where
  "succeeded_reply =
     PollResponse 200 \<lparr>sd_status = Some ''SUCCEEDED'',
       sd_output = Some [''https://cdn.example/out.mp4''], sd_error = None\<rparr>"

definition happy_world :: world where
  "happy_world =
     \<lparr>path_exists = (\<lambda>p. True),
      read_file = (\<lambda>p. Some (file_name p)),
      b64encode = (\<lambda>s. s),
      opened_image = Some \<lparr>img_width = 1920, img_height = 1080, img_mode = ''RGBA''\<rparr>,
      temp_mkdir_ok = True,
      save_ok = True,
      post = (\<lambda>b. PostResponse 200 ''ok'' (Some ''task-1'')),
      task_poll = (\<lambda>tid k. if k < 2 then running_reply else succeeded_reply),
      download = (\<lambda>u. DownloadResponse 200 ''video-bytes''),
      write_ok = (\<lambda>p. True)\<rparr>"

definition stalled_world :: world where
  "stalled_world = happy_world\<lparr>task_poll := (\<lambda>tid k. running_reply)\<rparr>"

definition out_mp4 :: path where
  "out_mp4 = \<lparr>parent = ''out'', file_name = ''a_act_two_16x9.mp4''\<rparr>"

text \<open>
  Downloads folders of the specification's example: one holds a video of the subject in
  a subfolder, the other only an unrelated video.
\<close>

definition jane_downloads :: downloads where
  "jane_downloads = \<lparr>case_sensitive = True,
     tree = Some [File ''notes.txt'', File ''john_smith.mp4'',
                  Dir ''2024'' [File ''jane_doe_final.mp4'', File ''jane_doe_v2.mp4'']]\<rparr>"

definition john_downloads :: downloads where
  "john_downloads = \<lparr>case_sensitive = True, tree = Some [File ''john_smith.mp4'']\<rparr>"

text \<open>A folder listing for a run with the pattern \<open>photo\<close>.\<close>

definition photo_listing :: "(string \<times> bool) list" where
  "photo_listing = [(''photo JANE DOE self.jpg'', True), (''readme.txt'', True)]"


definition corrupt_world :: world where
  "corrupt_world = happy_world\<lparr>opened_image := None\<rparr>"

definition unreadable_world :: world where
  "unreadable_world =
     happy_world\<lparr>opened_image := None,
       read_file := (\<lambda>p. if file_name p = ''driver.mp4'' then Some ''driver-bytes'' else None)\<rparr>"

definition in_jpg :: path where
  "in_jpg = \<lparr>parent = ''in'', file_name = ''a.jpg''\<rparr>"

definition fresh_generator :: generator where
  "fresh_generator =
     \<lparr>driver_video_path = \<lparr>parent = ''assets'', file_name = ''driver.mp4''\<rparr>,
      driver_video_data_uri = None\<rparr>"

definition fixed_16_9 :: config where
  "fixed_16_9 = \<lparr>aspect_ratio_mode = Some ''fixed'', fixed_aspect_ratio = Some ''16:9''\<rparr>"

text \<open>
  Batches for the concrete runs: two folders with one eligible image each, and one folder
  with two eligible images, the first of which never leaves the running state.
\<close>

definition empty_downloads :: downloads where
  "empty_downloads = \<lparr>case_sensitive = True, tree = Some []\<rparr>"

definition folder_alpha :: folder where
  "folder_alpha =
     \<lparr>dir_path = \<lparr>parent = ''root'', file_name = ''alpha''\<rparr>,
      listing = [(''genx ANNA LEE self.jpg'', True)],
      downloads_seen = empty_downloads\<rparr>"

definition folder_beta :: folder where
  "folder_beta =
     \<lparr>dir_path = \<lparr>parent = ''root'', file_name = ''Beta''\<rparr>,
      listing = [(''genx BOB RAY self.png'', True)],
      downloads_seen = empty_downloads\<rparr>"

definition folder_gamma :: folder where
  "folder_gamma =
     \<lparr>dir_path = \<lparr>parent = ''root'', file_name = ''gamma''\<rparr>,
      listing = [(''genx CARL ONE self.jpg'', True), (''notes.txt'', True),
                 (''genx DINA TWO self.jpg'', True)],
      downloads_seen = empty_downloads\<rparr>"

definition two_folder_batch :: batch_world where
  "two_folder_batch =
     \<lparr>driver_at_start = True, root_dirs = Some [folder_beta, folder_alpha],
      image_world = (\<lambda>p. happy_world)\<rparr>"

definition one_folder_batch :: batch_world where
  "one_folder_batch =
     \<lparr>driver_at_start = True, root_dirs = Some [folder_gamma],
      image_world = (\<lambda>p. if file_name p = ''genx CARL ONE self.jpg''
                             then stalled_world else happy_world)\<rparr>"

section \<open>Properties\<close>

subsection \<open>Ratio selection\<close>











subsection \<open>The polling loop\<close>

lemma poll_step_None_iff:
  "poll_step w tid out k = None \<longleftrightarrow> non_terminal (task_poll w tid k)"
  by (auto simp: poll_step_def non_terminal_def Let_def
      split: poll_reply.splits option.splits list.splits download_reply.splits)

lemma poll_step_not_TimedOut:
  "poll_step w tid out k \<noteq> Some (Inl TimedOut, wr)"
  by (auto simp: poll_step_def Let_def
      split: poll_reply.splits option.splits list.splits download_reply.splits if_splits)


lemma poll_loop_unfold:
  "poll_loop w tid out (10 * j) =
     (if j < 60 then
        (case poll_step w tid out j of
           Some (r, wr) \<Rightarrow> \<lparr>pr_result = r, pr_times = [10 * Suc j], pr_written = wr\<rparr>
         | None \<Rightarrow> polled_at (10 * Suc j) (poll_loop w tid out (10 * Suc j)))
      else \<lparr>pr_result = Inl TimedOut, pr_times = [], pr_written = None\<rparr>)"
proof -
  have e: "10 * j + 10 = 10 * Suc j" by simp
  have d: "(10 * j) div 10 = j" by simp
  have c: "(10 * j < max_wait) = (j < 60)" by (simp add: max_wait_def)
  show ?thesis by (subst poll_loop.simps) (simp only: e d c)
qed

lemma poll_loop_stop:
  "60 \<le> j \<Longrightarrow>
     poll_loop w tid out (10 * j) = \<lparr>pr_result = Inl TimedOut, pr_times = [], pr_written = None\<rparr>"
  by (subst poll_loop_unfold) simp

lemma poll_loop_return:
  "j < 60 \<Longrightarrow> poll_step w tid out j = Some (r, wr) \<Longrightarrow>
     poll_loop w tid out (10 * j) = \<lparr>pr_result = r, pr_times = [10 * Suc j], pr_written = wr\<rparr>"
  by (subst poll_loop_unfold) simp

lemma poll_loop_continue:
  "j < 60 \<Longrightarrow> poll_step w tid out j = None \<Longrightarrow>
     poll_loop w tid out (10 * j) =
       (poll_loop w tid out (10 * Suc j))
         \<lparr>pr_times := (10 * Suc j) # pr_times (poll_loop w tid out (10 * Suc j))\<rparr>"
  by (subst poll_loop_unfold) (simp add: polled_at_def)

lemma poll_loop_times:
  "j \<le> 60 \<Longrightarrow>
     length (pr_times (poll_loop w tid out (10 * j))) \<le> 60 - j \<and>
     pr_times (poll_loop w tid out (10 * j)) =
       map (\<lambda>k. 10 * Suc k) [j..<j + length (pr_times (poll_loop w tid out (10 * j)))]"
proof (induction "60 - j" arbitrary: j)
  case 0
  then have "60 \<le> j" by simp
  then show ?case by (simp add: poll_loop_stop)
next
  case (Suc n)
  then have j: "j < 60" and n: "n = 60 - Suc j" and le: "Suc j \<le> 60" by auto
  note IH = Suc.hyps(1)[OF n le]
  show ?case
  proof (cases "poll_step w tid out j")
    case None
    define ts where "ts = pr_times (poll_loop w tid out (10 * Suc j))"
    have ts: "length ts \<le> 60 - Suc j" "ts = map (\<lambda>k. 10 * Suc k) [Suc j..<Suc j + length ts]"
      using IH unfolding ts_def by blast+
    have eq: "pr_times (poll_loop w tid out (10 * j)) = (10 * Suc j) # ts"
      unfolding ts_def by (simp add: poll_loop_continue[OF j None])
    have "[j..<j + Suc (length ts)] = j # [Suc j..<Suc j + length ts]"
      using upt_conv_Cons[of j "j + Suc (length ts)"] by (simp del: upt_Suc)
    then have "map (\<lambda>k. 10 * Suc k) [j..<j + length ((10 * Suc j) # ts)] =
        (10 * Suc j) # map (\<lambda>k. 10 * Suc k) [Suc j..<Suc j + length ts]"
      by (simp del: upt_Suc)
    also have "\<dots> = (10 * Suc j) # ts"
      by (simp only: ts(2)[symmetric])
    finally have m: "map (\<lambda>k. 10 * Suc k) [j..<j + length ((10 * Suc j) # ts)] = (10 * Suc j) # ts" .
    have l: "length ((10 * Suc j) # ts) \<le> 60 - j" using ts(1) j by simp
    show ?thesis unfolding eq using m l by (simp only: simp_thms)
  next
    case (Some a)
    obtain r wr where a: "a = (r, wr)" by (cases a)
    show ?thesis using j by (simp add: poll_loop_return[OF j Some[unfolded a]])
  qed
qed

lemma poll_loop_timeout:
  "j \<le> 60 \<Longrightarrow>
     (pr_result (poll_loop w tid out (10 * j)) = Inl TimedOut) =
     (\<forall>k. j \<le> k \<and> k < 60 \<longrightarrow> poll_step w tid out k = None)"
proof (induction "60 - j" arbitrary: j)
  case 0
  then have "60 \<le> j" by simp
  then show ?case by (auto simp: poll_loop_stop)
next
  case (Suc n)
  then have j: "j < 60" and n: "n = 60 - Suc j" and le: "Suc j \<le> 60" by auto
  note IH = Suc.hyps(1)[OF n le]
  have split_all: "(\<forall>k. j \<le> k \<and> k < 60 \<longrightarrow> poll_step w tid out k = None) =
      (poll_step w tid out j = None \<and> (\<forall>k. Suc j \<le> k \<and> k < 60 \<longrightarrow> poll_step w tid out k = None))"
  proof -
    have "\<And>k. (j \<le> k) = (k = j \<or> Suc j \<le> k)" by auto
    then show ?thesis using j by auto
  qed
  show ?case
  proof (cases "poll_step w tid out j")
    case None
    then show ?thesis using IH unfolding split_all
      by (simp add: poll_loop_continue[OF j None])
  next
    case (Some a)
    obtain r wr where a: "a = (r, wr)" by (cases a)
    have "r \<noteq> Inl TimedOut" using poll_step_not_TimedOut[of w tid out j wr] Some a by auto
    then show ?thesis using Some unfolding split_all
      by (simp add: poll_loop_return[OF j Some[unfolded a]])
  qed
qed

lemma poll_loop_full:
  "j \<le> 60 \<Longrightarrow> \<forall>k. j \<le> k \<and> k < 60 \<longrightarrow> poll_step w tid out k = None \<Longrightarrow>
     length (pr_times (poll_loop w tid out (10 * j))) = 60 - j"
proof (induction "60 - j" arbitrary: j)
  case 0
  then have "60 \<le> j" by simp
  then show ?case by (simp add: poll_loop_stop)
next
  case (Suc n)
  then have j: "j < 60" and n: "n = 60 - Suc j" and le: "Suc j \<le> 60" by auto
  have "length (pr_times (poll_loop w tid out (10 * Suc j))) = 60 - Suc j"
    by (rule Suc.hyps(1)[OF n le]) (use Suc.prems in auto)
  moreover have "poll_step w tid out j = None" using Suc.prems j by auto
  ultimately show ?case using j by (simp add: poll_loop_continue)
qed

text \<open>
  C9. The polling loop sleeps 10 seconds before each poll, so the polls happen after 10,
  20, ... seconds of waiting; it makes at most 60 polls, hence waits at most 600 seconds.
  It ends in the time-out failure exactly when none of the 60 polls is terminal (status
  200 with a status other than SUCCEEDED and FAILED), and then after exactly 60 polls.
  The loop is a total function: it returns for every world.
\<close>

theorem poll_loop_bounded:
  "length (pr_times (poll_loop w tid out 0)) \<le> 60
   \<and> 10 * length (pr_times (poll_loop w tid out 0)) \<le> max_wait
   \<and> pr_times (poll_loop w tid out 0) =
       map (\<lambda>k. 10 * Suc k) [0..<length (pr_times (poll_loop w tid out 0))]
   \<and> ((pr_result (poll_loop w tid out 0) = Inl TimedOut) =
        (\<forall>k<60. non_terminal (task_poll w tid k)))
   \<and> ((\<forall>k<60. non_terminal (task_poll w tid k)) \<longrightarrow>
        length (pr_times (poll_loop w tid out 0)) = 60)"
proof -
  have t: "length (pr_times (poll_loop w tid out (10 * 0))) \<le> 60 - 0"
      "pr_times (poll_loop w tid out (10 * 0)) =
         map (\<lambda>k. 10 * Suc k) [0..<0 + length (pr_times (poll_loop w tid out (10 * 0)))]"
    using poll_loop_times[of 0 w tid out] by blast+
  have r: "(pr_result (poll_loop w tid out (10 * 0)) = Inl TimedOut) =
      (\<forall>k. 0 \<le> k \<and> k < 60 \<longrightarrow> poll_step w tid out k = None)"
    by (rule poll_loop_timeout) simp
  have f: "(\<forall>k<60. non_terminal (task_poll w tid k)) \<Longrightarrow>
      length (pr_times (poll_loop w tid out (10 * 0))) = 60 - 0"
    by (rule poll_loop_full) (simp_all add: poll_step_None_iff)
  show ?thesis using t r f by (simp add: poll_step_None_iff max_wait_def)
qed

theorem poll_loop_bounded_witness:
  "pr_result (poll_loop stalled_world ''task-1'' out_mp4 0) = Inl TimedOut
   \<and> length (pr_times (poll_loop stalled_world ''task-1'' out_mp4 0)) = 60
   \<and> pr_result (poll_loop happy_world ''task-1'' out_mp4 0) = Inr out_mp4
   \<and> pr_times (poll_loop happy_world ''task-1'' out_mp4 0) = [10, 20, 30]"
proof -
  have n: "\<forall>k<60. non_terminal (task_poll stalled_world ''task-1'' k)"
    by (simp add: stalled_world_def happy_world_def running_reply_def non_terminal_def)
  have h1: "pr_result (poll_loop happy_world ''task-1'' out_mp4 0) = Inr out_mp4"
    by code_simp
  have h2: "pr_times (poll_loop happy_world ''task-1'' out_mp4 0) = [10, 20, 30]"
    by code_simp
  show ?thesis
    using poll_loop_bounded[of stalled_world "''task-1''" out_mp4] n h1 h2 by simp
qed

subsection \<open>Pattern matching\<close>

text \<open>
  C8. With the pattern \<open>-selfie\<close> in exact mode, \<open>_matches_pattern\<close> of the file
  selector accepts \<open>person-selfie.jpg\<close> and rejects \<open>selfie-vacation.jpg\<close>. The
  exact-match test of \<open>get_genx_image_files\<close>, which chooses the files of a batch,
  rejects both: before \<open>-selfie\<close> it wants the start of the name or a character outside
  \<open>[a-z0-9]\<close>, and in \<open>person-selfie.jpg\<close> that character is \<open>n\<close>.
\<close>

theorem exact_match_selfie:
  "matches_pattern ''person-selfie.jpg'' ''-selfie'' True
   \<and> \<not> matches_pattern ''selfie-vacation.jpg'' ''-selfie'' True
   \<and> \<not> genx_matches ''-selfie'' True ''person-selfie.jpg''
   \<and> \<not> genx_matches ''-selfie'' True ''selfie-vacation.jpg''"
  by code_simp

theorem exact_match_selfie_witness:
  "matches_pattern ''person-selfie.jpg'' ''-selfie'' True
   \<and> \<not> genx_matches ''-selfie'' True ''person-selfie.jpg''"
  using exact_match_selfie by simp

subsection \<open>Duplicate detection\<close>

lemma py_in_iff_sublist: "py_in xs ys \<longleftrightarrow> sublist xs ys"
  by (induction ys) (auto simp: sublist_Cons_right)

lemma name_matches_video_iff:
  "name_matches_video parts v \<longleftrightarrow> (\<forall>part \<in> set parts. sublist (upper part) (upper (stem v)))"
  by (simp add: name_matches_video_def list_all_iff py_in_iff_sublist)

lemma set_rglob_unfold:
  "set (rglob m es) =
     {v \<in> entry_name ` set es. m v}
     \<union> (\<Union>e \<in> set es. case e of File _ \<Rightarrow> {} | Dir _ sub \<Rightarrow> set (rglob m sub))"
proof -
  have "\<And>e. set (case e of File _ \<Rightarrow> [] | Dir _ sub \<Rightarrow> rglob m sub) =
      (case e of File _ \<Rightarrow> {} | Dir _ sub \<Rightarrow> set (rglob m sub))"
    by (simp split: fs_entry.splits)
  then show ?thesis by (subst rglob.simps) auto
qed

lemma rglob_under: "v \<in> set (rglob m es) \<Longrightarrow> under es v \<and> m v"
proof (induction m es arbitrary: v rule: rglob.induct)
  case (1 m es)
  from "1.prems" consider
    (top) "v \<in> entry_name ` set es" "m v"
    | (sub) e where "e \<in> set es" "v \<in> (case e of File _ \<Rightarrow> {} | Dir _ sub \<Rightarrow> set (rglob m sub))"
    unfolding set_rglob_unfold[of m es] by blast
  then show ?case
  proof cases
    case top
    then show ?thesis by (auto intro: under.here)
  next
    case sub
    from sub(2) obtain n sb where e: "e = Dir n sb" and v: "v \<in> set (rglob m sb)"
      by (cases e) auto
    from "1.IH"[OF sub(1) e v] sub(1) e show ?thesis by (auto intro: under.below)
  qed
qed

lemma under_rglob: "under es v \<Longrightarrow> m v \<Longrightarrow> v \<in> set (rglob m es)"
proof (induction rule: under.induct)
  case (here e es)
  then show ?case unfolding set_rglob_unfold[of m es] by blast
next
  case (below n sub es v)
  then have "v \<in> set (rglob m sub)" by simp
  with below(1) show ?case unfolding set_rglob_unfold[of m es] by force
qed

lemma set_rglob: "set (rglob m es) = {v. under es v \<and> m v}"
  using rglob_under under_rglob by blast

lemma set_video_candidates:
  "set (video_candidates dl) = {v. under_root dl v \<and> is_video_name (case_sensitive dl) v}"
proof (cases "tree dl")
  case None
  then show ?thesis by (simp add: video_candidates_def under_root_def)
next
  case (Some es)
  then show ?thesis
    by (auto simp: video_candidates_def under_root_def is_video_name_def glob_match_def set_rglob)
qed

lemma scan_videos_fst:
  "fst (scan_videos parts vs) \<longleftrightarrow> (\<exists>v \<in> set vs. name_matches_video parts v)"
  by (induction vs) (auto split: prod.splits)

lemma scan_videos_snd:
  "snd (scan_videos parts vs) =
     takeWhile (\<lambda>v. \<not> name_matches_video parts v) vs
     @ take 1 (dropWhile (\<lambda>v. \<not> name_matches_video parts v) vs)"
  by (induction vs) (auto split: prod.splits)

lemma check_existing_videos_scan:
  "check_existing_videos dl nm = scan_videos (split nm) (video_candidates dl)"
  by (simp add: check_existing_videos_def video_candidates_def split: option.splits)

text \<open>
  C2. \<open>check_existing_videos\<close> answers true exactly when some entry below the downloads
  folder, at any depth, has a name ending in one of the five video extensions and a stem
  that contains every white-space separated token of the subject name, both in upper
  case. (The recursive glob yields every entry with such a name; a missing folder has no
  entries.) The scan stops at the first match: the videos it checks are those before the
  first match, and that match.
\<close>

theorem check_existing_videos_iff:
  "(fst (check_existing_videos dl nm) \<longleftrightarrow>
      (\<exists>v. under_root dl v \<and> is_video_name (case_sensitive dl) v
           \<and> (\<forall>part \<in> set (split nm). sublist (upper part) (upper (stem v)))))
   \<and> snd (check_existing_videos dl nm) =
       takeWhile (\<lambda>v. \<not> name_matches_video (split nm) v) (video_candidates dl)
       @ take 1 (dropWhile (\<lambda>v. \<not> name_matches_video (split nm) v) (video_candidates dl))"
proof -
  have "fst (check_existing_videos dl nm) \<longleftrightarrow>
      (\<exists>v \<in> set (video_candidates dl). name_matches_video (split nm) v)"
    by (simp add: check_existing_videos_scan scan_videos_fst)
  then show ?thesis
    by (auto simp: set_video_candidates name_matches_video_iff check_existing_videos_scan
        scan_videos_snd)
qed

theorem check_existing_videos_iff_witness:
  "fst (check_existing_videos jane_downloads ''JANE DOE'')
   \<and> snd (check_existing_videos jane_downloads ''JANE DOE'') =
       [''john_smith.mp4'', ''jane_doe_final.mp4'']
   \<and> \<not> fst (check_existing_videos john_downloads ''JANE DOE'')"
proof -
  have "under [File ''jane_doe_final.mp4'', File ''jane_doe_v2.mp4'']
          (entry_name (File ''jane_doe_final.mp4''))"
    by (rule under.here) simp
  then have u: "under_root jane_downloads ''jane_doe_final.mp4''"
    unfolding under_root_def jane_downloads_def
    by (auto intro: under.below[of "''2024''"])
  have v: "is_video_name (case_sensitive jane_downloads) ''jane_doe_final.mp4''"
    by code_simp
  have "name_matches_video (split ''JANE DOE'') ''jane_doe_final.mp4''"
    by code_simp
  then have m: "\<forall>part \<in> set (split ''JANE DOE'').
      sublist (upper part) (upper (stem ''jane_doe_final.mp4''))"
    by (simp only: name_matches_video_iff)
  have found: "fst (check_existing_videos jane_downloads ''JANE DOE'')"
    using check_existing_videos_iff[of jane_downloads "''JANE DOE''"] u v m by blast
  have checked: "snd (check_existing_videos jane_downloads ''JANE DOE'') =
      [''john_smith.mp4'', ''jane_doe_final.mp4'']"
    by code_simp
  have none: "\<not> fst (check_existing_videos john_downloads ''JANE DOE'')"
    by code_simp
  from found checked none show ?thesis by simp
qed

subsection \<open>Subject names\<close>

lemma split_go_nonempty: "t \<in> set (split_go s cur) \<Longrightarrow> t \<noteq> []"
  by (induction s arbitrary: cur) (auto split: if_splits)

lemma split_nonempty: "t \<in> set (split s) \<Longrightarrow> t \<noteq> []"
  unfolding split_def by (rule split_go_nonempty)

lemma join_nonempty: "ps \<noteq> [] \<Longrightarrow> \<forall>p \<in> set ps. p \<noteq> [] \<Longrightarrow> join sep ps \<noteq> []"
  by (induction sep ps rule: join.induct) auto

lemma three_parts:
  "3 \<le> length parts \<longleftrightarrow> (\<exists>a mid z. parts = a # mid @ [z] \<and> mid \<noteq> [])"
proof
  assume l: "3 \<le> length parts"
  then obtain a rest where p: "parts = a # rest" by (cases parts) auto
  with l have "rest \<noteq> []" by auto
  then obtain mid z where r: "rest = mid @ [z]" by (metis rev_exhaust)
  with l p have "mid \<noteq> []" by auto
  with p r show "\<exists>a mid z. parts = a # mid @ [z] \<and> mid \<noteq> []" by blast
next
  assume "\<exists>a mid z. parts = a # mid @ [z] \<and> mid \<noteq> []"
  then obtain a mid z where "parts = a # mid @ [z]" "mid \<noteq> []" by blast
  then show "3 \<le> length parts" by (cases mid) auto
qed

lemma extract_iff:
  "extract_name_from_genx_filename filename = Some subject \<longleftrightarrow>
     (\<exists>first middle lst. split (stem filename) = first # middle @ [lst] \<and> middle \<noteq> []
        \<and> lower first = ''genx'' \<and> lower lst = ''self'' \<and> subject = join '' '' middle)"
proof
  assume e: "extract_name_from_genx_filename filename = Some subject"
  define parts where "parts = split (stem filename)"
  from e have c: "3 \<le> length parts" "lower (hd parts) = ''genx''" "lower (last parts) = ''self''"
      "subject = join '' '' (butlast (tl parts))"
    unfolding extract_name_from_genx_filename_def parts_def Let_def
    by (auto split: if_splits)
  from c(1) obtain a mid z where p: "parts = a # mid @ [z]" "mid \<noteq> []"
    unfolding three_parts by blast
  with c show "\<exists>first middle lst. split (stem filename) = first # middle @ [lst] \<and> middle \<noteq> []
        \<and> lower first = ''genx'' \<and> lower lst = ''self'' \<and> subject = join '' '' middle"
    unfolding parts_def[symmetric] by (auto simp: butlast_append)
next
  assume "\<exists>first middle lst. split (stem filename) = first # middle @ [lst] \<and> middle \<noteq> []
        \<and> lower first = ''genx'' \<and> lower lst = ''self'' \<and> subject = join '' '' middle"
  then obtain a mid z where p: "split (stem filename) = a # mid @ [z]" "mid \<noteq> []"
      "lower a = ''genx''" "lower z = ''self''" "subject = join '' '' mid" by blast
  have "3 \<le> length (split (stem filename))" unfolding three_parts using p by blast
  then show "extract_name_from_genx_filename filename = Some subject"
    unfolding extract_name_from_genx_filename_def Let_def using p
    by (simp add: butlast_append)
qed

lemma extract_nonempty:
  assumes "extract_name_from_genx_filename filename = Some subject"
  shows "subject \<noteq> []"
proof -
  from assms obtain a mid z where p: "split (stem filename) = a # mid @ [z]" "mid \<noteq> []"
      "subject = join '' '' mid" unfolding extract_iff by blast
  have "\<forall>t \<in> set mid. t \<noteq> []"
  proof
    fix t assume "t \<in> set mid"
    then have "t \<in> set (split (stem filename))" using p(1) by simp
    then show "t \<noteq> []" by (rule split_nonempty)
  qed
  with p show ?thesis by (simp add: join_nonempty)
qed

lemma no_subject_included:
  assumes "e \<in> set es" "is_image_file e" "genx_matches pat exact (fst e)"
    "extract_name_from_genx_filename (fst e) = None"
  shows "\<lparr>parent = folder', file_name = fst e\<rparr> \<in> set (get_genx_image_files dl folder' (Some es) pat exact)"
  using assms by (auto simp: get_genx_image_files_def keep_file_def)

text \<open>
  C4, as the code has it. A subject is derived exactly when the stem of the file name
  splits at white space into a first token, a non-empty list of middle tokens and a last
  token, where the first token is \<open>genx\<close> and the last is \<open>self\<close>, both compared in
  lower case and whatever the configured search pattern is; the subject is the middle
  tokens joined by single spaces, and it is never empty. An image file that matches the
  search pattern and yields no subject is in the result of \<open>get_genx_image_files\<close>,
  whatever the downloads folder holds.
\<close>

theorem extract_name_genx_convention:
  "(extract_name_from_genx_filename filename = Some subject \<longleftrightarrow>
     (\<exists>first middle lst. split (stem filename) = first # middle @ [lst] \<and> middle \<noteq> []
        \<and> lower first = ''genx'' \<and> lower lst = ''self'' \<and> subject = join '' '' middle))
   \<and> (extract_name_from_genx_filename filename = Some subject \<longrightarrow> subject \<noteq> [])
   \<and> (e \<in> set es \<and> is_image_file e \<and> genx_matches pat exact (fst e)
        \<and> extract_name_from_genx_filename (fst e) = None \<longrightarrow>
       \<lparr>parent = folder', file_name = fst e\<rparr>
         \<in> set (get_genx_image_files dl folder' (Some es) pat exact))"
proof (intro conjI impI)
  show "extract_name_from_genx_filename filename = Some subject \<longleftrightarrow>
     (\<exists>first middle lst. split (stem filename) = first # middle @ [lst] \<and> middle \<noteq> []
        \<and> lower first = ''genx'' \<and> lower lst = ''self'' \<and> subject = join '' '' middle)"
    by (rule extract_iff)
next
  assume "extract_name_from_genx_filename filename = Some subject"
  then show "subject \<noteq> []" by (rule extract_nonempty)
next
  assume "e \<in> set es \<and> is_image_file e \<and> genx_matches pat exact (fst e)
        \<and> extract_name_from_genx_filename (fst e) = None"
  then show "\<lparr>parent = folder', file_name = fst e\<rparr>
         \<in> set (get_genx_image_files dl folder' (Some es) pat exact)"
    using no_subject_included[of e es pat exact folder' dl] by blast
qed

theorem extract_name_genx_convention_witness:
  "extract_name_from_genx_filename ''genx CIRILA MUNYON self.jpg'' = Some ''CIRILA MUNYON''
   \<and> get_genx_image_files jane_downloads ''in'' (Some photo_listing) ''photo'' False =
       [\<lparr>parent = ''in'', file_name = ''photo JANE DOE self.jpg''\<rparr>]"
proof -
  have s: "split (stem ''genx CIRILA MUNYON self.jpg'') = ''genx'' # [''CIRILA'', ''MUNYON''] @ [''self'']"
    by code_simp
  have l: "lower ''genx'' = ''genx''" "lower ''self'' = ''self''" by code_simp+
  have j: "''CIRILA MUNYON'' = join '' '' [''CIRILA'', ''MUNYON'']" by simp
  have a: "extract_name_from_genx_filename ''genx CIRILA MUNYON self.jpg'' = Some ''CIRILA MUNYON''"
  proof -
    have "\<exists>first middle lst. split (stem ''genx CIRILA MUNYON self.jpg'') = first # middle @ [lst]
        \<and> middle \<noteq> [] \<and> lower first = ''genx'' \<and> lower lst = ''self''
        \<and> ''CIRILA MUNYON'' = join '' '' middle"
      apply (rule exI[of _ "''genx''"])
      apply (rule exI[of _ "[''CIRILA'', ''MUNYON'']"])
      apply (rule exI[of _ "''self''"])
      using s l j by simp
    then show ?thesis
      using extract_name_genx_convention[of "''genx CIRILA MUNYON self.jpg''" "''CIRILA MUNYON''"]
      by (simp only: simp_thms)
  qed
  have b: "get_genx_image_files jane_downloads ''in'' (Some photo_listing) ''photo'' False =
       [\<lparr>parent = ''in'', file_name = ''photo JANE DOE self.jpg''\<rparr>]"
    by code_simp
  from a b show ?thesis by simp
qed

theorem extract_name_ignores_pattern_counterexample:
  "spec_subject ''photo'' ''photo JANE DOE self.jpg'' = Some ''JANE DOE''
   \<and> extract_name_from_genx_filename ''photo JANE DOE self.jpg'' = None
   \<and> spec_subject ''genx'' ''GENX JANE DOE SELF.jpg'' = None
   \<and> extract_name_from_genx_filename ''GENX JANE DOE SELF.jpg'' = Some ''JANE DOE''"
  by code_simp

subsection \<open>Resizing\<close>











subsection \<open>One generation\<close>

lemma poll_step_success:
  "poll_step w tid out k = Some (Inr q, wr) \<Longrightarrow> q = out \<and> (\<exists>c. wr = Some (out, c))"
  by (auto simp: poll_step_def Let_def
      split: poll_reply.splits option.splits list.splits download_reply.splits if_splits)

lemma poll_loop_success:
  "j \<le> 60 \<Longrightarrow> pr_result (poll_loop w tid out (10 * j)) = Inr q \<Longrightarrow>
     q = out \<and> (\<exists>c. pr_written (poll_loop w tid out (10 * j)) = Some (out, c))"
proof (induction "60 - j" arbitrary: j)
  case 0
  then have "60 \<le> j" by simp
  with "0.prems" poll_loop_stop[of j w tid out] show ?case by simp
next
  case (Suc n)
  then have j: "j < 60" and n: "n = 60 - Suc j" and le: "Suc j \<le> 60" by auto
  show ?case
  proof (cases "poll_step w tid out j")
    case None
    from Suc.prems(2) have "pr_result (poll_loop w tid out (10 * Suc j)) = Inr q"
      by (simp add: poll_loop_continue[OF j None])
    from Suc.hyps(1)[OF n le this] show ?thesis
      by (simp add: poll_loop_continue[OF j None])
  next
    case (Some a)
    obtain r wr where a: "a = (r, wr)" by (cases a)
    from Suc.prems(2) have "r = Inr q" by (simp add: poll_loop_return[OF j Some[unfolded a]])
    with poll_step_success[of w tid out j q wr] Some a show ?thesis
      by (simp add: poll_loop_return[OF j Some[unfolded a]])
  qed
qed

lemma submit_and_poll_success:
  assumes "result (submit_and_poll w g body out) = Inr q"
  shows "q = out \<and> (\<exists>c. written (submit_and_poll w g body out) = Some (out, c))"
proof -
  from assms obtain sc bt tid where p: "post w body = PostResponse sc bt (Some tid)" "sc = 200"
    by (auto simp: submit_and_poll_def failed_def split: post_reply.splits option.splits if_splits)
  with assms have "pr_result (poll_loop w tid out (10 * 0)) = Inr q"
    by (simp add: submit_and_poll_def)
  from poll_loop_success[OF _ this] p show ?thesis
    by (simp add: submit_and_poll_def)
qed

text \<open>
  A generation that succeeds has written the downloaded bytes to the output folder under
  the stem of the source image, \<open>_act_two_\<close>, the name of the chosen ratio with \<open>x\<close> for
  the colon, and \<open>.mp4\<close>, and returns that path.
\<close>

lemma create_success_output_path:
  assumes "result (create_act_two_generation w g p out config) = Inr q"
  shows "\<exists>tr rn c. resolve_ratio w (effective_config config) = Inr tr \<and> name tr = Some rn
     \<and> q = \<lparr>parent = out,
            file_name = stem (file_name p) @ ''_act_two_'' @ replace_char CHR '':'' ''x'' rn @ ''.mp4''\<rparr>
     \<and> written (create_act_two_generation w g p out config) = Some (q, c)"
  using assms submit_and_poll_success
  unfolding create_act_two_generation_def Let_def
  by (fastforce simp: failed_def split: option.splits sum.splits if_splits)

lemma map_of_catalog_unnamed: "map_of AVAILABLE_RATIOS k = Some t \<Longrightarrow> name t = None"
  by (auto simp: AVAILABLE_RATIOS_def split: if_splits)

lemma map_of_catalog_default: "\<exists>t. map_of AVAILABLE_RATIOS ''16:9'' = Some t"
  by (simp add: AVAILABLE_RATIOS_def)

lemma resolve_ratio_fixed:
  assumes "aspect_ratio_mode cfg = Some m" "m \<noteq> ''smart''"
  shows "\<exists>t. resolve_ratio w cfg = Inr t \<and> name t = None"
proof (cases "map_of AVAILABLE_RATIOS (case fixed_aspect_ratio cfg of None \<Rightarrow> ''16:9'' | Some r \<Rightarrow> r)")
  case None
  obtain t where t: "map_of AVAILABLE_RATIOS ''16:9'' = Some t"
    using map_of_catalog_default by blast
  then have "name t = None" by (rule map_of_catalog_unnamed)
  with None t assms show ?thesis by (simp add: resolve_ratio_def Let_def)
next
  case (Some t)
  then have "name t = None" by (rule map_of_catalog_unnamed)
  with Some assms show ?thesis by (simp add: resolve_ratio_def Let_def)
qed

text \<open>
  C3. In fixed ratio mode the target ratio is the catalog entry itself, a dict without
  the key \<open>name\<close>; the log line before the resize reads \<open>target_ratio['name']\<close> and raises
  \<open>KeyError\<close>, which the enclosing \<open>except\<close> turns into \<open>None\<close>. So no generation in fixed
  mode succeeds, none posts a request and none writes a file: with a driver video that
  exists and encodes, the outcome is the raised \<open>KeyError\<close>.
\<close>

theorem fixed_ratio_mode_fails:
  assumes "aspect_ratio_mode cfg = Some m" "m \<noteq> ''smart''"
  shows "(\<exists>f. result (create_act_two_generation w g p out (Some cfg)) = Inl f)
     \<and> posted (create_act_two_generation w g p out (Some cfg)) = None
     \<and> written (create_act_two_generation w g p out (Some cfg)) = None
     \<and> (path_exists w (driver_video_path g)
          \<and> driver_video_data_uri (ensure_driver_uri w g) \<noteq> None \<longrightarrow>
        result (create_act_two_generation w g p out (Some cfg)) = Inl (Raised KeyError))"
proof -
  obtain t where t: "resolve_ratio w cfg = Inr t" "name t = None"
    using resolve_ratio_fixed[OF assms] by blast
  show ?thesis
    unfolding create_act_two_generation_def Let_def
    using t by (auto simp: failed_def effective_config_def split: option.splits)
qed

theorem fixed_ratio_mode_fails_witness:
  "result (create_act_two_generation happy_world fresh_generator in_jpg ''out'' (Some fixed_16_9))
     = Inl (Raised KeyError)
   \<and> posted (create_act_two_generation happy_world fresh_generator in_jpg ''out'' (Some fixed_16_9))
     = None
   \<and> result (create_act_two_generation happy_world fresh_generator in_jpg ''out'' None)
     = Inr \<lparr>parent = ''out'', file_name = ''a_act_two_16x9.mp4''\<rparr>"
proof -
  have m: "aspect_ratio_mode fixed_16_9 = Some ''fixed''" "''fixed'' \<noteq> ''smart''"
    by (simp_all add: fixed_16_9_def)
  have d: "path_exists happy_world (driver_video_path fresh_generator)
      \<and> driver_video_data_uri (ensure_driver_uri happy_world fresh_generator) \<noteq> None"
    by (simp add: happy_world_def fresh_generator_def ensure_driver_uri_def
        encode_video_to_data_uri_def)
  have s: "result (create_act_two_generation happy_world fresh_generator in_jpg ''out'' None)
     = Inr \<lparr>parent = ''out'', file_name = ''a_act_two_16x9.mp4''\<rparr>"
    by code_simp
  from fixed_ratio_mode_fails[OF m, of happy_world fresh_generator in_jpg "''out''"] d s
  show ?thesis by simp
qed

lemma submit_and_poll_posted: "posted (submit_and_poll w g body out) = Some body"
  by (simp add: submit_and_poll_def failed_def split: post_reply.splits option.splits)

text \<open>
  C10, as the code has it. When the resize raises, \<open>resize_image_smart\<close> returns the path
  of the original image. The generation then encodes what that path holds: if the file
  can be read, the request carries the bytes of the original, not resized; if it cannot,
  the generation fails at the encoding and posts nothing.
\<close>

theorem resize_failure_falls_back:
  assumes "path_exists w (driver_video_path g)"
    and "driver_video_data_uri (ensure_driver_uri w g) = Some ref"
    and "resolve_ratio w (effective_config config) = Inr tr" and "name tr = Some rn"
    and "resize_body w p tr ''temp_resized'' = Inl e"
  shows "resize_image_smart w p tr ''temp_resized'' = p
     \<and> (case read_file w p of
          None \<Rightarrow>
            result (create_act_two_generation w g p out config) = Inl ImageEncodeFailed
            \<and> posted (create_act_two_generation w g p out config) = None
        | Some image_data \<Rightarrow>
            posted (create_act_two_generation w g p out config) =
              Some \<lparr>character_uri = ''data:'' @ image_mime (lower (suffix_of (file_name p)))
                                      @ '';base64,'' @ b64encode w image_data,
                    reference_uri = ref, ratio = api_value tr\<rparr>)"
proof -
  have r: "resize_image_smart w p tr ''temp_resized'' = p"
    by (simp add: resize_image_smart_def assms(5))
  show ?thesis
  proof (cases "read_file w p")
    case None
    then show ?thesis using assms(1-4) r
      by (simp add: create_act_two_generation_def Let_def encode_image_to_data_uri_def failed_def)
  next
    case (Some image_data)
    then show ?thesis using assms(1-4) r
      by (simp add: create_act_two_generation_def Let_def encode_image_to_data_uri_def
          submit_and_poll_posted)
  qed
qed

theorem resize_failure_falls_back_witness:
  "resize_image_smart corrupt_world in_jpg (named (AVAILABLE_RATIOS ! 2)) ''temp_resized'' = in_jpg
   \<and> posted (create_act_two_generation corrupt_world fresh_generator in_jpg ''out'' None) =
       Some \<lparr>character_uri = ''data:image/jpeg;base64,a.jpg'',
             reference_uri = ''data:video/mp4;base64,driver.mp4'', ratio = ''960:960''\<rparr>"
proof -
  have a1: "path_exists corrupt_world (driver_video_path fresh_generator)"
    by (simp add: corrupt_world_def happy_world_def)
  have a2: "driver_video_data_uri (ensure_driver_uri corrupt_world fresh_generator) =
      Some ''data:video/mp4;base64,driver.mp4''"
    by code_simp
  have a3: "resolve_ratio corrupt_world (effective_config None) = Inr (named (AVAILABLE_RATIOS ! 2))"
    by code_simp
  have a4: "name (named (AVAILABLE_RATIOS ! 2)) = Some ''1:1''"
    by code_simp
  have a5: "resize_body corrupt_world in_jpg (named (AVAILABLE_RATIOS ! 2)) ''temp_resized'' = Inl OSError"
    by code_simp
  have rd: "read_file corrupt_world in_jpg = Some ''a.jpg''"
    by (simp add: corrupt_world_def happy_world_def in_jpg_def)
  have mm: "image_mime (lower (suffix_of (file_name in_jpg))) = ''image/jpeg''"
    by code_simp
  have b: "b64encode corrupt_world ''a.jpg'' = ''a.jpg''"
    by (simp add: corrupt_world_def happy_world_def)
  have av: "api_value (named (AVAILABLE_RATIOS ! 2)) = ''960:960''" by code_simp
  from resize_failure_falls_back[OF a1 a2 a3 a4 a5, of "''out''"] rd mm b av
  show ?thesis by simp
qed

text \<open>
  The claim as stated fails for its own example of an unreadable file: the resize raises,
  the encoding of the original fails as well, and nothing is submitted.
\<close>

theorem unreadable_image_fails_counterexample:
  "resolve_ratio unreadable_world (effective_config None) = Inr (named (AVAILABLE_RATIOS ! 2))
   \<and> resize_body unreadable_world in_jpg (named (AVAILABLE_RATIOS ! 2)) ''temp_resized'' = Inl OSError
   \<and> resize_image_smart unreadable_world in_jpg (named (AVAILABLE_RATIOS ! 2)) ''temp_resized'' = in_jpg
   \<and> result (create_act_two_generation unreadable_world fresh_generator in_jpg ''out'' None)
       = Inl ImageEncodeFailed
   \<and> posted (create_act_two_generation unreadable_world fresh_generator in_jpg ''out'' None) = None"
  by code_simp

subsection \<open>The batch\<close>

lemma count_generated_append [simp]:
  "count_generated b (xs @ ys) = count_generated b xs + count_generated b ys"
  by (simp add: count_generated_def)

lemma generated_paths_append [simp]:
  "generated_paths (xs @ ys) = generated_paths xs @ generated_paths ys"
  by (simp add: generated_paths_def)

lemma count_generated_simps [simp]:
  "count_generated b [] = 0"
  "count_generated b (Generated p ok # es) =
     (if ok = b then Suc (count_generated b es) else count_generated b es)"
  "count_generated b (Slept d # es) = count_generated b es"
  by (simp_all add: count_generated_def)

lemma generated_paths_simps [simp]:
  "generated_paths [] = []"
  "generated_paths (Generated p ok # es) = p # generated_paths es"
  "generated_paths (Slept d # es) = generated_paths es"
  by (simp_all add: generated_paths_def)

lemma count_generated_total:
  "count_generated True es + count_generated False es = length (generated_paths es)"
proof (induction es)
  case Nil
  then show ?case by simp
next
  case (Cons e es)
  then show ?case by (cases e) auto
qed

lemma process_images_Cons:
  "process_images iw od delay co n i (p # rest) st =
     process_images iw od delay co n (Suc i) rest (image_step iw od delay co n i p st)"
  by (cases st) (simp add: image_step_def Let_def split: sum.splits)

lemma image_step_inv:
  assumes "image_step iw od delay co n i p (g, s) = (g', s')"
  shows "total_images s' = total_images s \<and> skipped_duplicates s' = skipped_duplicates s
     \<and> generated_paths (events s') = generated_paths (events s) @ [p]
     \<and> (tally s \<longrightarrow> tally s')"
  using assms
  by (auto simp: image_step_def Let_def tally_def split: sum.splits if_splits)

lemma process_images_inv:
  "process_images iw od delay co n i imgs (g, s) = (g', s') \<Longrightarrow>
     total_images s' = total_images s \<and> skipped_duplicates s' = skipped_duplicates s
     \<and> generated_paths (events s') = generated_paths (events s) @ imgs
     \<and> (tally s \<longrightarrow> tally s')"
proof (induction imgs arbitrary: i g s)
  case Nil
  then show ?case by simp
next
  case (Cons p rest)
  obtain g1 s1 where st: "image_step iw od delay co n i p (g, s) = (g1, s1)"
    by (cases "image_step iw od delay co n i p (g, s)")
  from Cons.prems have "process_images iw od delay co n (Suc i) rest (g1, s1) = (g', s')"
    by (simp only: process_images_Cons st)
  from Cons.IH[OF this] image_step_inv[OF st] show ?case by simp
qed

lemma process_folders_inv:
  "process_folders iw od delay co fs (g, s) = (g', s') \<Longrightarrow>
     total_images s' = total_images s + length (eligible_images fs)
     \<and> generated_paths (events s') = generated_paths (events s) @ eligible_images fs
     \<and> (tally s \<longrightarrow> tally s')"
proof (induction fs arbitrary: g s)
  case Nil
  then show ?case by (simp add: eligible_images_def)
next
  case (Cons f rest)
  define s1 where "s1 = s\<lparr>total_images := total_images s + length (genx_files_of f),
     skipped_duplicates := skipped_duplicates s
       + (int (total_found_in f) - int (length (genx_files_of f)))\<rparr>"
  have s1: "total_images s1 = total_images s + length (genx_files_of f)"
    "events s1 = events s" "tally s \<longrightarrow> tally s1"
    by (simp_all add: s1_def tally_def)
  obtain g2 s2 where mid:
    "process_images iw od delay co (length (genx_files_of f)) 1 (genx_files_of f) (g, s1) = (g2, s2)"
    by (cases "process_images iw od delay co (length (genx_files_of f)) 1 (genx_files_of f) (g, s1)")
  note pi = process_images_inv[OF mid]
  have step: "process_folders iw od delay co (f # rest) (g, s) =
      process_folders iw od delay co rest (g2, s2)"
  proof (cases "genx_files_of f = []")
    case True
    with mid have "(g2, s2) = (g, s1)" by simp
    with True show ?thesis by (simp add: Let_def s1_def)
  next
    case False
    then show ?thesis using mid by (simp add: Let_def s1_def[symmetric])
  qed
  from Cons.prems have "process_folders iw od delay co rest (g2, s2) = (g', s')"
    by (simp only: step)
  from Cons.IH[OF this] pi s1 show ?case
    by (simp add: eligible_images_def)
qed

text \<open>
  C1. A run that reaches the loop generates for every eligible image of every folder, in
  order and once each, whatever the outcomes: the succeeded counter is the number of
  generations that returned a path, the failed counter the number of those that returned
  \<open>None\<close>, and their sum is the number of eligible images, which is also the counter of
  images processed. A generation that fails, with whatever failure, adds one to the
  failed counter and the loop goes on with the next image. The run ends without a
  summary only when the driver video is missing or there is no folder.
\<close>

theorem process_all_images_counts:
  "(case process_all_images bw g od delay co of
      None \<Rightarrow> \<not> driver_at_start bw \<or> get_all_folders (root_dirs bw) = []
    | Some (g', s) \<Rightarrow>
        generated_paths (events s) = eligible_images (get_all_folders (root_dirs bw))
        \<and> total_images s = length (eligible_images (get_all_folders (root_dirs bw)))
        \<and> successful_generations s = count_generated True (events s)
        \<and> failed_generations s = count_generated False (events s)
        \<and> successful_generations s + failed_generations s = total_images s)
   \<and> (\<forall>f. result (create_act_two_generation (iw p) g p (if co then parent p else od) None) = Inl f
        \<longrightarrow> process_images iw od delay co n i (p # rest) (g, s0) =
            process_images iw od delay co n (Suc i) rest
              (gen (create_act_two_generation (iw p) g p (if co then parent p else od) None),
               (if i < n \<and> 0 < delay
                then s0\<lparr>failed_generations := failed_generations s0 + 1,
                         events := events s0 @ [Generated p False] @ [Slept delay]\<rparr>
                else s0\<lparr>failed_generations := failed_generations s0 + 1,
                         events := events s0 @ [Generated p False]\<rparr>)))"
proof (intro conjI allI impI)
  show "case process_all_images bw g od delay co of
      None \<Rightarrow> \<not> driver_at_start bw \<or> get_all_folders (root_dirs bw) = []
    | Some (g', s) \<Rightarrow>
        generated_paths (events s) = eligible_images (get_all_folders (root_dirs bw))
        \<and> total_images s = length (eligible_images (get_all_folders (root_dirs bw)))
        \<and> successful_generations s = count_generated True (events s)
        \<and> failed_generations s = count_generated False (events s)
        \<and> successful_generations s + failed_generations s = total_images s"
  proof (cases "process_all_images bw g od delay co")
    case None
    then show ?thesis
      by (auto simp: process_all_images_def Let_def split: if_splits)
  next
    case (Some r)
    obtain g' s where r: "r = (g', s)" by (cases r)
    from Some r have run: "process_folders (image_world bw) od delay co
        (get_all_folders (root_dirs bw)) (g, empty_summary) = (g', s)"
      by (auto simp: process_all_images_def Let_def split: if_splits)
    have t0: "tally empty_summary"
      by (simp add: tally_def empty_summary_def)
    from process_folders_inv[OF run] t0
    have a: "total_images s = length (eligible_images (get_all_folders (root_dirs bw)))"
      and b: "generated_paths (events s) = eligible_images (get_all_folders (root_dirs bw))"
      and c: "tally s"
      by (simp_all add: empty_summary_def)
    from c have "successful_generations s + failed_generations s = length (generated_paths (events s))"
      by (simp add: tally_def count_generated_total)
    with a b c Some r show ?thesis by (simp add: tally_def)
  qed
next
  fix f
  assume "result (create_act_two_generation (iw p) g p (if co then parent p else od) None) = Inl f"
  then show "process_images iw od delay co n i (p # rest) (g, s0) =
            process_images iw od delay co n (Suc i) rest
              (gen (create_act_two_generation (iw p) g p (if co then parent p else od) None),
               (if i < n \<and> 0 < delay
                then s0\<lparr>failed_generations := failed_generations s0 + 1,
                         events := events s0 @ [Generated p False] @ [Slept delay]\<rparr>
                else s0\<lparr>failed_generations := failed_generations s0 + 1,
                         events := events s0 @ [Generated p False]\<rparr>))"
    by (simp add: Let_def)
qed


theorem process_all_images_counts_witness:
  "map_option (\<lambda>r. (total_images (snd r), successful_generations (snd r),
       failed_generations (snd r), events (snd r)))
     (process_all_images one_folder_batch fresh_generator ''out'' 1 False) =
   Some (2, 1, 1,
     [Generated \<lparr>parent = ''root/gamma'', file_name = ''genx CARL ONE self.jpg''\<rparr> False,
      Slept 1,
      Generated \<lparr>parent = ''root/gamma'', file_name = ''genx DINA TWO self.jpg''\<rparr> True])
   \<and> eligible_images (get_all_folders (root_dirs one_folder_batch)) =
       [\<lparr>parent = ''root/gamma'', file_name = ''genx CARL ONE self.jpg''\<rparr>,
        \<lparr>parent = ''root/gamma'', file_name = ''genx DINA TWO self.jpg''\<rparr>]"
proof -
  have ev: "map_option (\<lambda>r. (successful_generations (snd r), events (snd r)))
     (process_all_images one_folder_batch fresh_generator ''out'' 1 False) =
   Some (1,
     [Generated \<lparr>parent = ''root/gamma'', file_name = ''genx CARL ONE self.jpg''\<rparr> False,
      Slept 1,
      Generated \<lparr>parent = ''root/gamma'', file_name = ''genx DINA TWO self.jpg''\<rparr> True])"
    by code_simp
  then obtain g' s where run: "process_all_images one_folder_batch fresh_generator ''out'' 1 False = Some (g', s)"
    and s: "successful_generations s = 1"
      "events s = [Generated \<lparr>parent = ''root/gamma'', file_name = ''genx CARL ONE self.jpg''\<rparr> False,
        Slept 1,
        Generated \<lparr>parent = ''root/gamma'', file_name = ''genx DINA TWO self.jpg''\<rparr> True]"
    by auto
  from process_all_images_counts[of one_folder_batch fresh_generator "''out''" 1 False] run
  have c: "generated_paths (events s) = eligible_images (get_all_folders (root_dirs one_folder_batch))"
    "total_images s = length (eligible_images (get_all_folders (root_dirs one_folder_batch)))"
    "failed_generations s = count_generated False (events s)"
    by simp_all
  from c(1) s(2) have e: "eligible_images (get_all_folders (root_dirs one_folder_batch)) =
       [\<lparr>parent = ''root/gamma'', file_name = ''genx CARL ONE self.jpg''\<rparr>,
        \<lparr>parent = ''root/gamma'', file_name = ''genx DINA TWO self.jpg''\<rparr>]"
    by simp
  from c(2,3) s run show ?thesis unfolding e by simp
qed

lemma filter_sleep_simps [simp]:
  "is_sleep (Slept d)" "\<not> is_sleep (Generated p ok)"
  by (simp_all add: is_sleep_def)

lemma image_step_sleeps:
  assumes "image_step iw od delay co n i p (g, s) = (g', s')"
  shows "length (filter is_sleep (events s')) =
     length (filter is_sleep (events s)) + (if i < n \<and> 0 < delay then 1 else 0)"
  using assms
  by (auto simp: image_step_def Let_def split: sum.splits if_splits)

lemma process_images_sleeps:
  "process_images iw od delay co n i imgs (g, s) = (g', s') \<Longrightarrow> i + length imgs = Suc n \<Longrightarrow>
     length (filter is_sleep (events s')) =
     length (filter is_sleep (events s)) + (if 0 < delay then length imgs - 1 else 0)"
proof (induction imgs arbitrary: i g s)
  case Nil
  then show ?case by simp
next
  case (Cons p rest)
  obtain g1 s1 where st: "image_step iw od delay co n i p (g, s) = (g1, s1)"
    by (cases "image_step iw od delay co n i p (g, s)")
  from Cons.prems(1) have run: "process_images iw od delay co n (Suc i) rest (g1, s1) = (g', s')"
    by (simp only: process_images_Cons st)
  from Cons.prems(2) have idx: "Suc i + length rest = Suc n" by simp
  from Cons.IH[OF run idx] image_step_sleeps[OF st] Cons.prems(2)
  show ?case by (cases rest) auto
qed

lemma process_folders_sleeps:
  "process_folders iw od delay co fs (g, s) = (g', s') \<Longrightarrow>
     length (filter is_sleep (events s')) =
     length (filter is_sleep (events s))
     + (if 0 < delay then (\<Sum>f\<leftarrow>fs. length (genx_files_of f) - 1) else 0)"
proof (induction fs arbitrary: g s)
  case Nil
  then show ?case by simp
next
  case (Cons f rest)
  define s1 where "s1 = s\<lparr>total_images := total_images s + length (genx_files_of f),
     skipped_duplicates := skipped_duplicates s
       + (int (total_found_in f) - int (length (genx_files_of f)))\<rparr>"
  have s1: "events s1 = events s" by (simp add: s1_def)
  obtain g2 s2 where mid:
    "process_images iw od delay co (length (genx_files_of f)) 1 (genx_files_of f) (g, s1) = (g2, s2)"
    by (cases "process_images iw od delay co (length (genx_files_of f)) 1 (genx_files_of f) (g, s1)")
  have pi: "length (filter is_sleep (events s2)) =
     length (filter is_sleep (events s1)) + (if 0 < delay then length (genx_files_of f) - 1 else 0)"
    by (rule process_images_sleeps[OF mid]) simp
  have step: "process_folders iw od delay co (f # rest) (g, s) =
      process_folders iw od delay co rest (g2, s2)"
  proof (cases "genx_files_of f = []")
    case True
    with mid have "(g2, s2) = (g, s1)" by simp
    with True show ?thesis by (simp add: Let_def s1_def)
  next
    case False
    then show ?thesis using mid by (simp add: Let_def s1_def[symmetric])
  qed
  from Cons.prems have "process_folders iw od delay co rest (g2, s2) = (g', s')"
    by (simp only: step)
  from Cons.IH[OF this] pi s1 show ?case by simp
qed

text \<open>
  C5. The loop sleeps after an image when \<open>i < len(genx_image_files)\<close>, the number of
  images of the current folder: it sleeps after every image but the last of each folder,
  not of the batch. With two folders of one image each and a delay of one second the run
  generates twice and never sleeps. In general the number of sleeps is the sum over the
  folders of the number of their eligible images less one, and zero when the delay is
  not positive.
\<close>

theorem sleeps_per_folder:
  "map_option (\<lambda>r. events (snd r))
     (process_all_images two_folder_batch fresh_generator ''out'' 1 False) =
   Some [Generated \<lparr>parent = ''root/alpha'', file_name = ''genx ANNA LEE self.jpg''\<rparr> True,
         Generated \<lparr>parent = ''root/Beta'', file_name = ''genx BOB RAY self.png''\<rparr> True]
   \<and> (process_all_images bw g od delay co = Some (g', s) \<longrightarrow>
        length (filter is_sleep (events s)) =
          (if 0 < delay
           then (\<Sum>f\<leftarrow>get_all_folders (root_dirs bw). length (genx_files_of f) - 1)
           else 0))"
proof (intro conjI impI)
  show "map_option (\<lambda>r. events (snd r))
     (process_all_images two_folder_batch fresh_generator ''out'' 1 False) =
   Some [Generated \<lparr>parent = ''root/alpha'', file_name = ''genx ANNA LEE self.jpg''\<rparr> True,
         Generated \<lparr>parent = ''root/Beta'', file_name = ''genx BOB RAY self.png''\<rparr> True]"
    by code_simp
next
  assume "process_all_images bw g od delay co = Some (g', s)"
  then have "process_folders (image_world bw) od delay co
        (get_all_folders (root_dirs bw)) (g, empty_summary) = (g', s)"
    by (auto simp: process_all_images_def Let_def split: if_splits)
  from process_folders_sleeps[OF this]
  show "length (filter is_sleep (events s)) =
          (if 0 < delay
           then (\<Sum>f\<leftarrow>get_all_folders (root_dirs bw). length (genx_files_of f) - 1)
           else 0)"
    by (simp add: empty_summary_def)
qed

theorem sleeps_per_folder_witness:
  "map_option (\<lambda>r. length (filter is_sleep (events (snd r))))
     (process_all_images two_folder_batch fresh_generator ''out'' 1 False) = Some 0
   \<and> map_option (\<lambda>r. length (generated_paths (events (snd r))))
     (process_all_images two_folder_batch fresh_generator ''out'' 1 False) = Some 2"
proof -
  note ev = sleeps_per_folder[THEN conjunct1]
  then obtain g' s where run:
    "process_all_images two_folder_batch fresh_generator ''out'' 1 False = Some (g', s)"
    and s: "events s =
      [Generated \<lparr>parent = ''root/alpha'', file_name = ''genx ANNA LEE self.jpg''\<rparr> True,
       Generated \<lparr>parent = ''root/Beta'', file_name = ''genx BOB RAY self.png''\<rparr> True]"
    by auto
  from run s show ?thesis by simp
qed

end
